theory Spec2Isabelle
  imports Complex_Main
begin

section \<open>Data model\<close>

subsection \<open>Values of the language\<close>

text \<open>
  Every value of the language is a C \<^verbatim>\<open>double\<close>. The finite doubles are kept here as the
  rationals they denote, next to the not-a-number value; rounding and overflow to an
  infinity are outside this model, so a statement about a computed value is only made for
  operands on which double arithmetic is exact (small integers).
\<close>

datatype dbl = Dbl rat | NaN

subsection \<open>Tokens\<close>

text \<open>
  \<^verbatim>\<open>gettok\<close> returns an \<^verbatim>\<open>int\<close>: one of the negative constants of \<^verbatim>\<open>enum Token\<close>, or the
  code (0..255) of a character that \<^verbatim>\<open>getchar\<close> delivered. The two ranges are disjoint,
  so the integer is a tagged value.
\<close>

datatype Token = tok_eof | tok_def | tok_extern | tok_identifier | tok_number
  | tok_char char

subsection \<open>The AST\<close>

datatype ExprAST =
    NumberExprAST dbl
  | VariableExprAST string
  | BinaryExprAST char ExprAST ExprAST
  | CallExprAST string "ExprAST list"

datatype PrototypeAST = PrototypeAST string "string list"

datatype FunctionAST = FunctionAST PrototypeAST ExprAST

fun getName :: "PrototypeAST \<Rightarrow> string" where
  "getName (PrototypeAST name args) = name"

subsection \<open>The backend module\<close>

text \<open>
  The LLVM objects the program handles through pointers. A \<^verbatim>\<open>Function *\<close> is a handle
  (a natural number, never reused). A \<^verbatim>\<open>Value *\<close> is the tree of builder calls that
  produced it: the instructions the builder appends to the entry block are exactly the
  inner nodes of the tree handed to \<^verbatim>\<open>CreateRet\<close>, in left-to-right order, because every
  failure after an instruction was emitted erases the whole function. Constant folding
  and the pass pipeline, which keep the value a function computes, are not modelled.
\<close>

datatype Value =
    ConstantFP dbl
  | Argument nat nat
  | FAdd Value Value
  | FSub Value Value
  | FMul Value Value
  | FCmpULT Value Value
  | UIToFP Value
  | Call nat "Value list"

text \<open>
  A function without basic blocks is a declaration (\<^verbatim>\<open>empty()\<close> holds); the only block the
  program ever creates is \<^verbatim>\<open>entry\<close>, which holds the returned value once \<^verbatim>\<open>CreateRet\<close> ran.
\<close>

datatype BasicBlocks = NoBlocks | EntryBlock "Value option"

record Function =
  fn_name :: string
  fn_args :: "string list"
  fn_blocks :: BasicBlocks

record Module =
  FunctionList :: "(nat \<times> Function) list"
  next_handle :: nat
  LastUnique :: nat

subsection \<open>What the process writes and calls\<close>

text \<open>
  The writes to \<^verbatim>\<open>stderr\<close>, in order: the prompt, a diagnostic of \<^verbatim>\<open>LogError\<close>, a
  confirmation line, the rendering of a function (\<^verbatim>\<open>FnIR->print(errs())\<close>, kept as the
  function object printed). \<open>Execute\<close> is the call \<^verbatim>\<open>execute(FunctionHandle)\<close> of the
  execution collaborator of the specification.
\<close>

datatype Event =
    Prompt
  | Error string
  | Message string
  | PrintIR nat "Function option"
  | Execute nat

fun is_Execute :: "Event \<Rightarrow> bool" where
  "is_Execute (Execute f) = True"
| "is_Execute _ = False"

subsection \<open>The global variables\<close>

text \<open>
  \<open>stdin\<close> is the unread rest of standard input and \<open>reads\<close> counts the calls of
  \<^verbatim>\<open>getchar\<close>; \<open>LastChar\<close> is \<open>None\<close> for \<^verbatim>\<open>EOF\<close>. The two \<^verbatim>\<open>std::map\<close>s are association lists;
  an entry of \<open>NamedValues\<close> with value \<open>None\<close> is a null pointer.
\<close>

record state =
  stdin :: string
  reads :: nat
  LastChar :: "char option"
  IdentifierStr :: string
  NumVal :: dbl
  CurTok :: Token
  BinopPrecedence :: "(char \<times> int) list"
  TheModule :: Module
  NamedValues :: "(string \<times> Value option) list"
  out :: "Event list"

section \<open>Lexer\<close>

text \<open>The character classes of \<^verbatim>\<open>ctype.h\<close> in the C locale; all are false at \<^verbatim>\<open>EOF\<close>.\<close>

definition isspace :: "char option \<Rightarrow> bool" where
  "isspace x = (case x of None \<Rightarrow> False
     | Some c \<Rightarrow> c = CHR '' '' \<or> (9::nat) \<le> of_char c \<and> (of_char c :: nat) \<le> 13)"

definition isdigit :: "char option \<Rightarrow> bool" where
  "isdigit x = (case x of None \<Rightarrow> False
     | Some c \<Rightarrow> (48::nat) \<le> of_char c \<and> (of_char c :: nat) \<le> 57)"

definition isalpha :: "char option \<Rightarrow> bool" where
  "isalpha x = (case x of None \<Rightarrow> False
     | Some c \<Rightarrow> (65::nat) \<le> of_char c \<and> (of_char c :: nat) \<le> 90
         \<or> (97::nat) \<le> of_char c \<and> (of_char c :: nat) \<le> 122)"

definition isalnum :: "char option \<Rightarrow> bool" where
  "isalnum x = (isalpha x \<or> isdigit x)"

text \<open>The conversion \<^verbatim>\<open>(char) LastChar\<close>; \<^verbatim>\<open>EOF\<close> is -1.\<close>

definition to_char :: "char option \<Rightarrow> char" where
  "to_char x = (case x of None \<Rightarrow> CHR 0xFF | Some c \<Rightarrow> c)"

text \<open>
  \<^verbatim>\<open>strtod\<close> on a string of digits and dots: the longest prefix of the form digits, dot,
  digits with at least one digit is converted, and no conversion gives zero.
\<close>

definition digit_val :: "char \<Rightarrow> nat" where
  "digit_val c = of_char c - 48"

definition decimal :: "string \<Rightarrow> nat" where
  "decimal ds = foldl (\<lambda>a c. 10 * a + digit_val c) 0 ds"

definition strtod :: "string \<Rightarrow> dbl" where
  "strtod str =
     (let ip = takeWhile (\<lambda>c. isdigit (Some c)) str;
          r = dropWhile (\<lambda>c. isdigit (Some c)) str;
          fp = (case r of [] \<Rightarrow> []
                | c # r' \<Rightarrow> if c = CHR ''.'' then takeWhile (\<lambda>c. isdigit (Some c)) r' else [])
      in if ip = [] \<and> fp = [] then Dbl 0
         else Dbl (of_nat (decimal ip) + of_nat (decimal fp) / 10 ^ length fp))"

text \<open>\<^verbatim>\<open>LastChar = getchar()\<close>.\<close>

definition getchar :: "state \<Rightarrow> state" where
  "getchar s = (case stdin s of
       [] \<Rightarrow> s\<lparr>reads := Suc (reads s), LastChar := None\<rparr>
     | c # cs \<Rightarrow> s\<lparr>stdin := cs, reads := Suc (reads s), LastChar := Some c\<rparr>)"

text \<open>What is left to read: the unread input, and the look-ahead character if there is one.\<close>

definition pending :: "state \<Rightarrow> nat" where
  "pending s = length (stdin s) + (case LastChar s of None \<Rightarrow> 0 | Some c \<Rightarrow> 1)"

lemma pending_getchar: "LastChar s \<noteq> None \<Longrightarrow> pending (getchar s) < pending s"
  by (auto simp: pending_def getchar_def split: list.splits)

lemma stdin_getchar: "LastChar (getchar s) \<noteq> None \<Longrightarrow> length (stdin (getchar s)) < length (stdin s)"
  by (auto simp: getchar_def split: list.splits)

lemma stdin_getchar_le: "length (stdin (getchar s)) \<le> length (stdin s)"
  by (auto simp: getchar_def split: list.splits)

text \<open>\<^verbatim>\<open>while (isspace(LastChar)) LastChar = getchar();\<close>\<close>

function skip_whitespace :: "state \<Rightarrow> state" where
  "skip_whitespace s = (if isspace (LastChar s) then skip_whitespace (getchar s) else s)"
  by pat_completeness auto
termination
  by (relation "measure pending") (auto simp: isspace_def pending_getchar split: option.splits)

declare skip_whitespace.simps [simp del]

text \<open>\<^verbatim>\<open>while (isalnum(LastChar = getchar())) IdentifierStr += LastChar;\<close>\<close>

function read_identifier :: "state \<Rightarrow> state" where
  "read_identifier s =
     (let s1 = getchar s
      in if isalnum (LastChar s1)
         then read_identifier (s1\<lparr>IdentifierStr := IdentifierStr s1 @ [to_char (LastChar s1)]\<rparr>)
         else s1)"
  by pat_completeness auto
termination
  by (relation "measure (\<lambda>s. length (stdin s))")
     (auto simp: isalnum_def isalpha_def isdigit_def getchar_def split: option.splits list.splits)

declare read_identifier.simps [simp del]

text \<open>
  \<^verbatim>\<open>do { NumStr += LastChar; LastChar = getchar(); } while (isdigit(LastChar) || LastChar == '.');\<close>
\<close>

function read_number :: "string \<Rightarrow> state \<Rightarrow> string \<times> state" where
  "read_number NumStr s =
     (let NumStr1 = NumStr @ [to_char (LastChar s)]; s1 = getchar s
      in if isdigit (LastChar s1) \<or> LastChar s1 = Some CHR ''.''
         then read_number NumStr1 s1
         else (NumStr1, s1))"
  by pat_completeness auto
termination
  by (relation "measure (\<lambda>(n, s). length (stdin s))")
     (auto simp: isdigit_def getchar_def split: option.splits list.splits)

declare read_number.simps [simp del]

text \<open>
  \<^verbatim>\<open>do LastChar = getchar(); while (LastChar != EOF && LastChar != '\n' && LastChar != '\r');\<close>
\<close>

function skip_comment :: "state \<Rightarrow> state" where
  "skip_comment s =
     (let s1 = getchar s
      in if LastChar s1 \<noteq> None \<and> LastChar s1 \<noteq> Some CHR 0x0A \<and> LastChar s1 \<noteq> Some CHR 0x0D
         then skip_comment s1
         else s1)"
  by pat_completeness auto
termination
  by (relation "measure (\<lambda>s. length (stdin s))")
     (auto simp: getchar_def split: option.splits list.splits)

declare skip_comment.simps [simp del]

lemma stdin_skip_whitespace: "length (stdin (skip_whitespace s)) \<le> length (stdin s)"
proof (induction s rule: skip_whitespace.induct)
  case (1 s)
  show ?case
  proof (cases "isspace (LastChar s)")
    case True
    with 1 have "length (stdin (skip_whitespace (getchar s))) \<le> length (stdin (getchar s))"
      by simp
    also have "\<dots> \<le> length (stdin s)" by (rule stdin_getchar_le)
    finally show ?thesis using True by (subst skip_whitespace.simps) simp
  next
    case False
    then show ?thesis by (subst skip_whitespace.simps) simp
  qed
qed

lemma stdin_skip_comment:
  "LastChar (skip_comment s) \<noteq> None \<Longrightarrow> length (stdin (skip_comment s)) < length (stdin s)"
proof (induction s rule: skip_comment.induct)
  case (1 s)
  let ?s1 = "getchar s"
  show ?case
  proof (cases "LastChar ?s1 \<noteq> None \<and> LastChar ?s1 \<noteq> Some CHR 0x0A \<and> LastChar ?s1 \<noteq> Some CHR 0x0D")
    case True
    then have eq: "skip_comment s = skip_comment ?s1"
      by (subst skip_comment.simps) (simp add: Let_def)
    with 1 True have "length (stdin (skip_comment ?s1)) < length (stdin ?s1)"
      by (simp add: Let_def)
    with eq stdin_getchar_le [of s] show ?thesis by simp
  next
    case False
    then have eq: "skip_comment s = ?s1"
      by (subst skip_comment.simps) (auto simp: Let_def)
    with "1.prems" show ?thesis by (simp add: stdin_getchar)
  qed
qed

text \<open>\<^verbatim>\<open>gettok\<close>: the next token from standard input.\<close>

function gettok :: "state \<Rightarrow> Token \<times> state" where
  "gettok s0 =
     (let s = skip_whitespace s0
      in if isalpha (LastChar s) then
           (let s1 = read_identifier (s\<lparr>IdentifierStr := [to_char (LastChar s)]\<rparr>)
            in if IdentifierStr s1 = ''def'' then (tok_def, s1)
               else if IdentifierStr s1 = ''extern'' then (tok_extern, s1)
               else (tok_identifier, s1))
         else if isdigit (LastChar s) \<or> LastChar s = Some CHR ''.'' then
           (case read_number [] s of (NumStr, s1) \<Rightarrow> (tok_number, s1\<lparr>NumVal := strtod NumStr\<rparr>))
         else if LastChar s = Some CHR ''#'' \<and> LastChar (skip_comment s) \<noteq> None then
           gettok (skip_comment s)
         else
           (let s2 = (if LastChar s = Some CHR ''#'' then skip_comment s else s)
            in case LastChar s2 of
                 None \<Rightarrow> (tok_eof, s2)
               | Some ThisChar \<Rightarrow> (tok_char ThisChar, getchar s2)))"
  by pat_completeness auto
termination
proof (relation "measure (\<lambda>s. length (stdin s))")
  show "wf (measure (\<lambda>s. length (stdin s)))" by simp
next
  fix s0 s
  assume s: "s = skip_whitespace s0"
    and c: "LastChar s = Some CHR ''#'' \<and> LastChar (skip_comment s) \<noteq> None"
  from c have "length (stdin (skip_comment s)) < length (stdin s)"
    by (simp add: stdin_skip_comment)
  with stdin_skip_whitespace [of s0] s
  show "(skip_comment s, s0) \<in> measure (\<lambda>s. length (stdin s))" by simp
qed

declare gettok.simps [simp del]

definition getNextToken :: "state \<Rightarrow> state" where
  "getNextToken s = (case gettok s of (t, s1) \<Rightarrow> s1\<lparr>CurTok := t\<rparr>)"


section \<open>Parser\<close>

text \<open>
  \<^verbatim>\<open>BinopPrecedence[CurTok]\<close>: \<^verbatim>\<open>operator[]\<close> of \<^verbatim>\<open>std::map\<close> returns the stored value, and adds the
  key with the value 0 when the key is absent.
\<close>

definition isascii :: "Token \<Rightarrow> bool" where
  "isascii t = (case t of tok_char c \<Rightarrow> (of_char c :: nat) < 128 | _ \<Rightarrow> False)"

text \<open>The conversions \<^verbatim>\<open>(char) CurTok\<close> of a token; the enum constants are -1 to -5.\<close>

fun tok_to_char :: "Token \<Rightarrow> char" where
  "tok_to_char (tok_char c) = c"
| "tok_to_char tok_eof = CHR 0xFF"
| "tok_to_char tok_def = CHR 0xFE"
| "tok_to_char tok_extern = CHR 0xFD"
| "tok_to_char tok_identifier = CHR 0xFC"
| "tok_to_char tok_number = CHR 0xFB"

definition GetTokPrecedence :: "state \<Rightarrow> int \<times> state" where
  "GetTokPrecedence s =
     (if \<not> isascii (CurTok s) then (-1, s)
      else case map_of (BinopPrecedence s) (tok_to_char (CurTok s)) of
             None \<Rightarrow> (-1, s\<lparr>BinopPrecedence := BinopPrecedence s @ [(tok_to_char (CurTok s), 0)]\<rparr>)
           | Some TokPrec \<Rightarrow> if TokPrec \<le> 0 then (-1, s) else (TokPrec, s))"

text \<open>\<^verbatim>\<open>LogError\<close>, \<^verbatim>\<open>LogErrorP\<close> and \<^verbatim>\<open>LogErrorV\<close> print the diagnostic; the caller returns null.\<close>

definition LogError :: "string \<Rightarrow> state \<Rightarrow> state" where
  "LogError Str s = s\<lparr>out := out s @ [Error Str]\<rparr>"

definition ParseNumberExpr :: "state \<Rightarrow> ExprAST option \<times> state" where
  "ParseNumberExpr s = (Some (NumberExprAST (NumVal s)), getNextToken s)"

text \<open>
  The expression parser is recursive through \<^verbatim>\<open>ParsePrimary\<close>, \<^verbatim>\<open>ParseParenExpr\<close>,
  \<^verbatim>\<open>ParseIdentifierExpr\<close>, \<^verbatim>\<open>ParseBinOpRHS\<close> and \<^verbatim>\<open>ParseExpression\<close>. The first argument
  bounds the depth of the calls (each call, and each round of a loop, takes one unit);
  the result \<open>None\<close> means that the bound was reached, \<open>Some (None, s)\<close> is the null
  pointer the source returns on a syntax error. \<open>ParseArgs\<close> is the argument loop
  \<^verbatim>\<open>while (true)\<close> of \<^verbatim>\<open>ParseIdentifierExpr\<close>.
\<close>

fun ParsePrimary :: "nat \<Rightarrow> state \<Rightarrow> (ExprAST option \<times> state) option"
  and ParseParenExpr :: "nat \<Rightarrow> state \<Rightarrow> (ExprAST option \<times> state) option"
  and ParseIdentifierExpr :: "nat \<Rightarrow> state \<Rightarrow> (ExprAST option \<times> state) option"
  and ParseArgs :: "nat \<Rightarrow> string \<Rightarrow> ExprAST list \<Rightarrow> state \<Rightarrow> (ExprAST option \<times> state) option"
  and ParseBinOpRHS :: "nat \<Rightarrow> int \<Rightarrow> ExprAST \<Rightarrow> state \<Rightarrow> (ExprAST option \<times> state) option"
  and ParseExpression :: "nat \<Rightarrow> state \<Rightarrow> (ExprAST option \<times> state) option"
where
  "ParsePrimary 0 s = None"
| "ParsePrimary (Suc n) s =
     (if CurTok s = tok_identifier then ParseIdentifierExpr n s
      else if CurTok s = tok_number then Some (ParseNumberExpr s)
      else if CurTok s = tok_char CHR ''('' then ParseParenExpr n s
      else Some (None, LogError ''unknown tokenw hen expecting an exp'' s))"
| "ParseParenExpr 0 s = None"
| "ParseParenExpr (Suc n) s =
     (case ParseExpression n (getNextToken s) of
        None \<Rightarrow> None
      | Some (None, s1) \<Rightarrow> Some (None, s1)
      | Some (Some V, s1) \<Rightarrow>
          if CurTok s1 \<noteq> tok_char CHR '')'' then Some (None, LogError ''expected )'' s1)
          else Some (Some V, getNextToken s1))"
| "ParseIdentifierExpr 0 s = None"
| "ParseIdentifierExpr (Suc n) s =
     (let IdName = IdentifierStr s; s1 = getNextToken s
      in if CurTok s1 \<noteq> tok_char CHR ''('' then Some (Some (VariableExprAST IdName), s1)
         else let s2 = getNextToken s1
              in if CurTok s2 \<noteq> tok_char CHR '')'' then ParseArgs n IdName [] s2
                 else Some (Some (CallExprAST IdName []), getNextToken s2))"
| "ParseArgs 0 IdName Args s = None"
| "ParseArgs (Suc n) IdName Args s =
     (case ParseExpression n s of
        None \<Rightarrow> None
      | Some (None, s1) \<Rightarrow> Some (None, s1)
      | Some (Some Arg0, s1) \<Rightarrow>
          if CurTok s1 = tok_char CHR '')''
          then Some (Some (CallExprAST IdName (Args @ [Arg0])), getNextToken s1)
          else if CurTok s1 \<noteq> tok_char CHR '',''
          then Some (None, LogError ''Expected ) or , in argument'' s1)
          else ParseArgs n IdName (Args @ [Arg0]) (getNextToken s1))"
| "ParseBinOpRHS 0 ExprPrec LHS s = None"
| "ParseBinOpRHS (Suc n) ExprPrec LHS s =
     (case GetTokPrecedence s of (TokPrec, s1) \<Rightarrow>
        if TokPrec < ExprPrec then Some (Some LHS, s1)
        else let BinOp = tok_to_char (CurTok s1)
             in case ParsePrimary n (getNextToken s1) of
                  None \<Rightarrow> None
                | Some (None, s2) \<Rightarrow> Some (None, s2)
                | Some (Some RHS, s2) \<Rightarrow>
                    (case GetTokPrecedence s2 of (NextPrec, s3) \<Rightarrow>
                       if TokPrec < NextPrec then
                         (case ParseBinOpRHS n (TokPrec + 1) RHS s3 of
                            None \<Rightarrow> None
                          | Some (None, s4) \<Rightarrow> Some (None, s4)
                          | Some (Some RHS1, s4) \<Rightarrow>
                              ParseBinOpRHS n ExprPrec (BinaryExprAST BinOp LHS RHS1) s4)
                       else ParseBinOpRHS n ExprPrec (BinaryExprAST BinOp LHS RHS) s3))"
| "ParseExpression 0 s = None"
| "ParseExpression (Suc n) s =
     (case ParsePrimary n s of
        None \<Rightarrow> None
      | Some (None, s1) \<Rightarrow> Some (None, s1)
      | Some (Some LHS, s1) \<Rightarrow> ParseBinOpRHS n 0 LHS s1)"

text \<open>Every token but the end token takes something from what is left to read.\<close>

lemma pending_getchar_le: "pending (getchar s) \<le> pending s"
  by (auto simp: pending_def getchar_def split: list.splits option.splits)

lemma pending_skip_whitespace: "pending (skip_whitespace s) \<le> pending s"
proof (induction s rule: skip_whitespace.induct)
  case (1 s)
  show ?case
  proof (cases "isspace (LastChar s)")
    case True
    with 1 have "pending (skip_whitespace (getchar s)) \<le> pending (getchar s)" by simp
    with pending_getchar_le [of s] True show ?thesis
      by (subst skip_whitespace.simps) simp
  next
    case False
    then show ?thesis by (subst skip_whitespace.simps) simp
  qed
qed

lemma pending_IdentifierStr [simp]: "pending (s\<lparr>IdentifierStr := x\<rparr>) = pending s"
  by (simp add: pending_def)

lemma pending_NumVal [simp]: "pending (s\<lparr>NumVal := x\<rparr>) = pending s"
  by (simp add: pending_def)

lemma pending_CurTok [simp]: "pending (s\<lparr>CurTok := x\<rparr>) = pending s"
  by (simp add: pending_def)

lemma pending_read_identifier: "pending (read_identifier s) \<le> pending (getchar s)"
proof (induction s rule: read_identifier.induct)
  case (1 s)
  let ?s1 = "getchar s"
  let ?s2 = "?s1\<lparr>IdentifierStr := IdentifierStr ?s1 @ [to_char (LastChar ?s1)]\<rparr>"
  show ?case
  proof (cases "isalnum (LastChar ?s1)")
    case True
    then have eq: "read_identifier s = read_identifier ?s2"
      by (subst read_identifier.simps) (simp add: Let_def)
    from 1 True have "pending (read_identifier ?s2) \<le> pending (getchar ?s2)"
      by (simp add: Let_def)
    also have "\<dots> \<le> pending ?s2" by (rule pending_getchar_le)
    finally show ?thesis using eq by simp
  next
    case False
    then have "read_identifier s = ?s1"
      by (subst read_identifier.simps) (simp add: Let_def)
    then show ?thesis by simp
  qed
qed

lemma pending_read_number: "pending (snd (read_number NumStr s)) \<le> pending (getchar s)"
proof (induction NumStr s rule: read_number.induct)
  case (1 NumStr s)
  let ?s1 = "getchar s"
  let ?n1 = "NumStr @ [to_char (LastChar s)]"
  show ?case
  proof (cases "isdigit (LastChar ?s1) \<or> LastChar ?s1 = Some CHR ''.''")
    case True
    then have eq: "read_number NumStr s = read_number ?n1 ?s1"
      by (subst read_number.simps) (simp add: Let_def)
    from 1 True have "pending (snd (read_number ?n1 ?s1)) \<le> pending (getchar ?s1)"
      by (simp add: Let_def)
    also have "\<dots> \<le> pending ?s1" by (rule pending_getchar_le)
    finally show ?thesis using eq by simp
  next
    case False
    then have "read_number NumStr s = (?n1, ?s1)"
      by (subst read_number.simps) (simp add: Let_def)
    then show ?thesis by simp
  qed
qed

lemma pending_skip_comment: "pending (skip_comment s) \<le> pending (getchar s)"
proof (induction s rule: skip_comment.induct)
  case (1 s)
  let ?s1 = "getchar s"
  show ?case
  proof (cases "LastChar ?s1 \<noteq> None \<and> LastChar ?s1 \<noteq> Some CHR 0x0A \<and> LastChar ?s1 \<noteq> Some CHR 0x0D")
    case True
    then have eq: "skip_comment s = skip_comment ?s1"
      by (subst skip_comment.simps) (simp add: Let_def)
    from 1 True have "pending (skip_comment ?s1) \<le> pending (getchar ?s1)"
      by (simp add: Let_def)
    also have "\<dots> \<le> pending ?s1" by (rule pending_getchar_le)
    finally show ?thesis using eq by simp
  next
    case False
    then have "skip_comment s = ?s1"
      by (subst skip_comment.simps) (auto simp: Let_def)
    then show ?thesis by simp
  qed
qed

lemma pending_gettok:
  "pending (snd (gettok s0)) \<le> pending s0
   \<and> (fst (gettok s0) \<noteq> tok_eof \<longrightarrow> pending (snd (gettok s0)) < pending s0)"
proof (induction s0 rule: gettok.induct)
  case (1 s0)
  let ?s = "skip_whitespace s0"
  have ws: "pending ?s \<le> pending s0" by (rule pending_skip_whitespace)
  consider (ident) "isalpha (LastChar ?s)"
    | (num) "\<not> isalpha (LastChar ?s)" "isdigit (LastChar ?s) \<or> LastChar ?s = Some CHR ''.''"
    | (comment) "\<not> isalpha (LastChar ?s)" "\<not> (isdigit (LastChar ?s) \<or> LastChar ?s = Some CHR ''.'')"
        "LastChar ?s = Some CHR ''#''" "LastChar (skip_comment ?s) \<noteq> None"
    | (comment_eof) "\<not> isalpha (LastChar ?s)" "\<not> (isdigit (LastChar ?s) \<or> LastChar ?s = Some CHR ''.'')"
        "LastChar ?s = Some CHR ''#''" "LastChar (skip_comment ?s) = None"
    | (other) "\<not> isalpha (LastChar ?s)" "\<not> (isdigit (LastChar ?s) \<or> LastChar ?s = Some CHR ''.'')"
        "LastChar ?s \<noteq> Some CHR ''#''"
    by blast
  then show ?case
  proof cases
    case ident
    let ?s1 = "read_identifier (?s\<lparr>IdentifierStr := [to_char (LastChar ?s)]\<rparr>)"
    from ident have some: "LastChar ?s \<noteq> None" by (auto simp: isalpha_def split: option.splits)
    have "pending ?s1 \<le> pending (getchar (?s\<lparr>IdentifierStr := [to_char (LastChar ?s)]\<rparr>))"
      by (rule pending_read_identifier)
    also have "\<dots> < pending (?s\<lparr>IdentifierStr := [to_char (LastChar ?s)]\<rparr>)"
      using some by (intro pending_getchar) simp
    finally have lt: "pending ?s1 < pending s0" using ws by simp
    from ident have "snd (gettok s0) = ?s1"
      by (subst gettok.simps) (simp add: Let_def)
    with lt show ?thesis by simp
  next
    case num
    from num have some: "LastChar ?s \<noteq> None" by (auto simp: isdigit_def split: option.splits)
    have "pending (snd (read_number [] ?s)) \<le> pending (getchar ?s)"
      by (rule pending_read_number)
    also have "\<dots> < pending ?s" using some by (rule pending_getchar)
    finally have lt: "pending (snd (read_number [] ?s)) < pending s0" using ws by simp
    from num have "snd (gettok s0) = (snd (read_number [] ?s))\<lparr>NumVal := strtod (fst (read_number [] ?s))\<rparr>"
      by (subst gettok.simps) (simp add: Let_def split: prod.splits)
    with lt show ?thesis by simp
  next
    case comment
    then have eq: "gettok s0 = gettok (skip_comment ?s)"
      by (subst gettok.simps) (simp add: Let_def)
    from comment have ih: "pending (snd (gettok (skip_comment ?s))) \<le> pending (skip_comment ?s)"
      using "1.IH" [of ?s] by simp
    have "pending (skip_comment ?s) \<le> pending (getchar ?s)" by (rule pending_skip_comment)
    also have "\<dots> < pending ?s" using comment by (intro pending_getchar) simp
    finally have "pending (skip_comment ?s) < pending s0" using ws by simp
    with ih eq show ?thesis by simp
  next
    case comment_eof
    then have "gettok s0 = (tok_eof, skip_comment ?s)"
      by (subst gettok.simps) (simp add: Let_def)
    moreover have "pending (skip_comment ?s) \<le> pending ?s"
      using pending_skip_comment [of ?s] pending_getchar_le [of ?s] by simp
    ultimately show ?thesis using ws by simp
  next
    case other
    show ?thesis
    proof (cases "LastChar ?s")
      case None
      with other have "gettok s0 = (tok_eof, ?s)"
        by (subst gettok.simps) (simp add: Let_def)
      with ws show ?thesis by simp
    next
      case (Some c)
      with other have "gettok s0 = (tok_char c, getchar ?s)"
        by (subst gettok.simps) (simp add: Let_def)
      moreover have "pending (getchar ?s) < pending ?s"
        using Some by (intro pending_getchar) simp
      ultimately show ?thesis using ws by simp
    qed
  qed
qed

lemma pending_getNextToken_le: "pending (getNextToken s) \<le> pending s"
  using pending_gettok [of s] by (cases "gettok s") (simp add: getNextToken_def)

lemma pending_getNextToken:
  "CurTok (getNextToken s) \<noteq> tok_eof \<Longrightarrow> pending (getNextToken s) < pending s"
  using pending_gettok [of s] by (cases "gettok s") (simp add: getNextToken_def)

text \<open>\<^verbatim>\<open>while (getNextToken() == tok_identifier) ArgNames.push_back(IdentifierStr);\<close>\<close>

function read_ArgNames :: "string list \<Rightarrow> state \<Rightarrow> string list \<times> state" where
  "read_ArgNames ArgNames s =
     (let s1 = getNextToken s
      in if CurTok s1 = tok_identifier then read_ArgNames (ArgNames @ [IdentifierStr s1]) s1
         else (ArgNames, s1))"
  by pat_completeness auto
termination
  by (relation "measure (\<lambda>(a, s). pending s)") (auto simp: pending_getNextToken)

declare read_ArgNames.simps [simp del]

definition ParsePrototype :: "state \<Rightarrow> PrototypeAST option \<times> state" where
  "ParsePrototype s =
     (if CurTok s \<noteq> tok_identifier
      then (None, LogError ''Expected function name in prototype'' s)
      else let FnName = IdentifierStr s; s1 = getNextToken s
           in if CurTok s1 \<noteq> tok_char CHR ''(''
              then (None, LogError (''Expected '' @ [CHR 0x27] @ ''('' @ [CHR 0x27] @ '' in prototype'') s1)
              else case read_ArgNames [] s1 of (ArgNames, s2) \<Rightarrow>
                     if CurTok s2 \<noteq> tok_char CHR '')''
                     then (None, LogError (''Expected '' @ [CHR 0x27] @ '')'' @ [CHR 0x27] @ '' in prototype'') s2)
                     else (Some (PrototypeAST FnName ArgNames), getNextToken s2))"

definition ParseDefinition :: "nat \<Rightarrow> state \<Rightarrow> (FunctionAST option \<times> state) option" where
  "ParseDefinition n s =
     (case ParsePrototype (getNextToken s) of
        (None, s1) \<Rightarrow> Some (None, s1)
      | (Some Proto, s1) \<Rightarrow>
          (case ParseExpression n s1 of
             None \<Rightarrow> None
           | Some (None, s2) \<Rightarrow> Some (None, s2)
           | Some (Some E, s2) \<Rightarrow> Some (Some (FunctionAST Proto E), s2)))"

definition ParseTopLevelExpr :: "nat \<Rightarrow> state \<Rightarrow> (FunctionAST option \<times> state) option" where
  "ParseTopLevelExpr n s =
     (case ParseExpression n s of
        None \<Rightarrow> None
      | Some (None, s1) \<Rightarrow> Some (None, s1)
      | Some (Some E, s1) \<Rightarrow> Some (Some (FunctionAST (PrototypeAST [] []) E), s1))"

definition ParseExtern :: "state \<Rightarrow> PrototypeAST option \<times> state" where
  "ParseExtern s = ParsePrototype (getNextToken s)"

section \<open>The backend objects the code generator uses\<close>

text \<open>
  \<^verbatim>\<open>Module::getFunction\<close> looks the name up in the symbol table of the module, which holds
  the named functions only. The result is the pointer together with the object.
\<close>

definition getFunction :: "Module \<Rightarrow> string \<Rightarrow> (nat \<times> Function) option" where
  "getFunction M Name =
     (if Name = [] then None else find (\<lambda>(h, F). fn_name F = Name) (FunctionList M))"

text \<open>
  A name that is set on a value and already used in the symbol table is made unique
  (\<^verbatim>\<open>ValueSymbolTable::makeUniqueName\<close>): the counter of the table is incremented and
  appended, after a dot for a function, until the name is free. At most as many
  candidates fail as names are in the table.
\<close>

fun digits :: "nat \<Rightarrow> string" where
  "digits n = (if n < 10 then [''0123456789'' ! n]
               else digits (n div 10) @ [''0123456789'' ! (n mod 10)])"

declare digits.simps [simp del]

definition makeUniqueName :: "string \<Rightarrow> string \<Rightarrow> string list \<Rightarrow> nat \<Rightarrow> string \<times> nat" where
  "makeUniqueName Base dot table u =
     (case find (\<lambda>k. Base @ dot @ digits k \<notin> set table) [Suc u ..< Suc u + Suc (length table)] of
        Some k \<Rightarrow> (Base @ dot @ digits k, k)
      | None \<Rightarrow> (Base @ dot @ digits (Suc u + Suc (length table)), Suc u + Suc (length table)))"

lemma digit_val_nth: "d < 10 \<Longrightarrow> digit_val (''0123456789'' ! d) = d"
proof -
  assume "d < 10"
  then have "d \<in> {0, 1, 2, 3, 4, 5, 6, 7, 8, 9}" by auto
  then show ?thesis by (auto simp: digit_val_def)
qed

lemma decimal_snoc: "decimal (ds @ [c]) = 10 * decimal ds + digit_val c"
  by (simp add: decimal_def)

lemma decimal_digits: "decimal (digits n) = n"
proof (induction n rule: digits.induct)
  case (1 n)
  show ?case
  proof (cases "n < 10")
    case True
    then show ?thesis by (subst digits.simps) (simp add: decimal_def digit_val_nth)
  next
    case False
    with 1 have "decimal (digits (n div 10)) = n div 10" by simp
    with False show ?thesis
      by (subst digits.simps) (simp add: decimal_snoc digit_val_nth)
  qed
qed

lemma digits_inj: "digits m = digits n \<Longrightarrow> m = n"
  by (metis decimal_digits)

text \<open>
  An argument is not a global value. \<^verbatim>\<open>Value::setName\<close> cuts the name of such a value to
  \<^verbatim>\<open>NonGlobalValueMaxNameSize\<close> characters, and the symbol table of the function, which
  is created with this size as its limit, makes a used name unique within the limit
  (\<^verbatim>\<open>ValueSymbolTable::makeUniqueName\<close> with \<^verbatim>\<open>MaxNameSize\<close> set): the next counter is
  appended to the first \<open>BaseSize\<close> characters; a name that comes out longer than the
  limit is not tried, \<open>BaseSize\<close> is shortened by the excess and the loop continues with
  the counter after it. The source asserts that \<open>BaseSize\<close> is at least the excess,
  which holds as long as the counter has fewer digits than the limit; beyond that, here
  \<open>BaseSize\<close> becomes 0 and the counter alone is the name.

  The loop ends: a round that shortens \<open>BaseSize\<close> makes it smaller, and a round that
  finds the name in the table uses up one name of the table for the number of digits
  the counter has, because no later counter of as many digits gives that name again.
\<close>

definition NonGlobalValueMaxNameSize :: nat where
  "NonGlobalValueMaxNameSize = 1024"

definition later_names :: "string list \<Rightarrow> nat \<Rightarrow> (string \<times> nat) set" where
  "later_names table u =
     {(x, d). x \<in> set table \<and> d \<le> length x
              \<and> (\<exists>k > u. length (digits k) = d \<and> (\<exists>y. x = y @ digits k))}"

lemma finite_later_names: "finite (later_names table u)"
proof -
  have "later_names table u \<subseteq> (SIGMA x : set table. {.. length x})"
    by (auto simp: later_names_def)
  moreover have "finite (SIGMA x : set table. {.. length x})" by simp
  ultimately show ?thesis by (rule finite_subset)
qed

lemma later_names_Suc: "later_names table (Suc u) \<subseteq> later_names table u"
  by (auto simp: later_names_def intro: Suc_lessD)

lemma later_names_used:
  assumes "y @ digits (Suc u) \<in> set table"
  shows "card (later_names table (Suc u)) < card (later_names table u)"
proof -
  let ?p = "(y @ digits (Suc u), length (digits (Suc u)))"
  have "?p \<in> later_names table u"
    using assms by (auto simp: later_names_def)
  moreover have "?p \<notin> later_names table (Suc u)"
  proof
    assume "?p \<in> later_names table (Suc u)"
    then obtain k z where k: "Suc u < k" "length (digits k) = length (digits (Suc u))"
      "y @ digits (Suc u) = z @ digits k"
      by (auto simp: later_names_def)
    from k(2,3) have "digits (Suc u) = digits k" by simp
    then have "Suc u = k" by (rule digits_inj)
    with k(1) show False by simp
  qed
  ultimately have "later_names table (Suc u) \<subset> later_names table u"
    using later_names_Suc [of table u] by blast
  then show ?thesis using finite_later_names by (rule psubset_card_mono [rotated])
qed

function makeUniqueArgName :: "string \<Rightarrow> nat \<Rightarrow> string list \<Rightarrow> nat \<Rightarrow> string \<times> nat" where
  "makeUniqueArgName UniqueName BaseSize table u =
     (if NonGlobalValueMaxNameSize < length (take BaseSize UniqueName @ digits (Suc u)) \<and> 0 < BaseSize
      then makeUniqueArgName UniqueName
             (BaseSize - (length (take BaseSize UniqueName @ digits (Suc u)) - NonGlobalValueMaxNameSize))
             table (Suc u)
      else if take BaseSize UniqueName @ digits (Suc u) \<in> set table
      then makeUniqueArgName UniqueName BaseSize table (Suc u)
      else (take BaseSize UniqueName @ digits (Suc u), Suc u))"
  by pat_completeness auto
termination
proof (relation "measure (\<lambda>(UniqueName, BaseSize, table, u). card (later_names table u) + BaseSize)")
  show "wf (measure (\<lambda>(UniqueName, BaseSize, table, u). card (later_names table u) + BaseSize))"
    by simp
next
  fix UniqueName :: string and BaseSize :: nat and table :: "string list" and u :: nat
  assume "NonGlobalValueMaxNameSize < length (take BaseSize UniqueName @ digits (Suc u)) \<and> 0 < BaseSize"
  then have "BaseSize - (length (take BaseSize UniqueName @ digits (Suc u)) - NonGlobalValueMaxNameSize)
      < BaseSize"
    by arith
  moreover have "card (later_names table (Suc u)) \<le> card (later_names table u)"
    using finite_later_names later_names_Suc by (rule card_mono)
  ultimately show "((UniqueName,
        BaseSize - (length (take BaseSize UniqueName @ digits (Suc u)) - NonGlobalValueMaxNameSize),
        table, Suc u), (UniqueName, BaseSize, table, u))
      \<in> measure (\<lambda>(UniqueName, BaseSize, table, u). card (later_names table u) + BaseSize)"
    by simp
next
  fix UniqueName :: string and BaseSize :: nat and table :: "string list" and u :: nat
  assume "take BaseSize UniqueName @ digits (Suc u) \<in> set table"
  then have "card (later_names table (Suc u)) < card (later_names table u)"
    by (rule later_names_used)
  then show "((UniqueName, BaseSize, table, Suc u), (UniqueName, BaseSize, table, u))
      \<in> measure (\<lambda>(UniqueName, BaseSize, table, u). card (later_names table u) + BaseSize)"
    by simp
qed

declare makeUniqueArgName.simps [simp del]

text \<open>\<^verbatim>\<open>for (auto &Arg: F->args()) Arg.setName(Args[Idx++]);\<close> on the fresh table of the function.\<close>

fun setArgNames :: "string list \<Rightarrow> string list \<Rightarrow> nat \<Rightarrow> string list" where
  "setArgNames [] table u = []"
| "setArgNames (a # as) table u =
     (let NameRef = take NonGlobalValueMaxNameSize a
      in if NameRef \<in> set table
         then (case makeUniqueArgName NameRef (length NameRef) table u of
                 (a1, u1) \<Rightarrow> a1 # setArgNames as (a1 # table) u1)
         else NameRef # setArgNames as (NameRef # table) u)"

text \<open>\<^verbatim>\<open>Function::Create(FT, Function::ExternalLinkage, Name, TheModule.get())\<close> and the naming
  of the arguments: always a new function object, appended to the module.\<close>

definition symbol_names :: "Module \<Rightarrow> string list" where
  "symbol_names M = map (\<lambda>(h, F). fn_name F) (filter (\<lambda>(h, F). fn_name F \<noteq> []) (FunctionList M))"

definition setName_Function :: "string \<Rightarrow> Module \<Rightarrow> string \<times> nat" where
  "setName_Function Name M =
     (if Name \<noteq> [] \<and> Name \<in> set (symbol_names M)
      then makeUniqueName Name ''.'' (symbol_names M) (LastUnique M)
      else (Name, LastUnique M))"

definition Function_Create :: "string \<Rightarrow> string list \<Rightarrow> Module \<Rightarrow> nat \<times> Module" where
  "Function_Create Name ArgNames M =
     (case setName_Function Name M of (Name1, u1) \<Rightarrow>
        (next_handle M,
         M\<lparr>FunctionList := FunctionList M @
              [(next_handle M,
                \<lparr>fn_name = Name1, fn_args = setArgNames ArgNames [] 0, fn_blocks = NoBlocks\<rparr>)],
           next_handle := Suc (next_handle M),
           LastUnique := u1\<rparr>))"

definition eraseFromParent :: "nat \<Rightarrow> Module \<Rightarrow> Module" where
  "eraseFromParent h M = M\<lparr>FunctionList := filter (\<lambda>(h1, F). h1 \<noteq> h) (FunctionList M)\<rparr>"

definition set_blocks :: "nat \<Rightarrow> BasicBlocks \<Rightarrow> Module \<Rightarrow> Module" where
  "set_blocks h b M =
     M\<lparr>FunctionList := map (\<lambda>(h1, F). if h1 = h then (h1, F\<lparr>fn_blocks := b\<rparr>) else (h1, F))
                           (FunctionList M)\<rparr>"

text \<open>\<^verbatim>\<open>F->empty()\<close>: the function has no basic block.\<close>

definition empty_Function :: "Module \<Rightarrow> nat \<Rightarrow> bool" where
  "empty_Function M h =
     (case map_of (FunctionList M) h of None \<Rightarrow> True | Some F \<Rightarrow> fn_blocks F = NoBlocks)"

text \<open>The assignment \<^verbatim>\<open>m[k] = v\<close> of a \<^verbatim>\<open>std::map\<close>.\<close>

fun assign :: "'k \<Rightarrow> 'v \<Rightarrow> ('k \<times> 'v) list \<Rightarrow> ('k \<times> 'v) list" where
  "assign k v [] = [(k, v)]"
| "assign k v ((k1, v1) # al) = (if k = k1 then (k, v) # al else (k1, v1) # assign k v al)"

section \<open>Code generation\<close>

fun ExprAST_codegen :: "ExprAST \<Rightarrow> state \<Rightarrow> Value option \<times> state"
  and codegen_Args :: "ExprAST list \<Rightarrow> Value list \<Rightarrow> state \<Rightarrow> Value list option \<times> state"
where
  "ExprAST_codegen (NumberExprAST Val) s = (Some (ConstantFP Val), s)"
| "ExprAST_codegen (VariableExprAST Name) s =
     (case map_of (NamedValues s) Name of
        None \<Rightarrow> (None, LogError ''Unknown variable name''
                          (s\<lparr>NamedValues := NamedValues s @ [(Name, None)]\<rparr>))
      | Some None \<Rightarrow> (None, LogError ''Unknown variable name'' s)
      | Some (Some V) \<Rightarrow> (Some V, s))"
| "ExprAST_codegen (BinaryExprAST Op LHS RHS) s =
     (case ExprAST_codegen LHS s of (L, s1) \<Rightarrow>
      case ExprAST_codegen RHS s1 of (R, s2) \<Rightarrow>
        (case L of None \<Rightarrow> (None, s2) | Some l \<Rightarrow>
         case R of None \<Rightarrow> (None, s2) | Some r \<Rightarrow>
           if Op = CHR ''+'' then (Some (FAdd l r), s2)
           else if Op = CHR ''-'' then (Some (FSub l r), s2)
           else if Op = CHR ''*'' then (Some (FMul l r), s2)
           else if Op = CHR ''<'' then (Some (UIToFP (FCmpULT l r)), s2)
           else (None, LogError ''invalid binary operator'' s2)))"
| "ExprAST_codegen (CallExprAST Callee Args) s =
     (case getFunction (TheModule s) Callee of
        None \<Rightarrow> (None, LogError ''Unknown function referenced'' s)
      | Some (CalleeF, F) \<Rightarrow>
          if length (fn_args F) \<noteq> length Args
          then (None, LogError ''Incorrect # arguments passed'' s)
          else (case codegen_Args Args [] s of
                  (None, s1) \<Rightarrow> (None, s1)
                | (Some ArgsV, s1) \<Rightarrow> (Some (Call CalleeF ArgsV), s1)))"
| "codegen_Args [] ArgsV s = (Some ArgsV, s)"
| "codegen_Args (A # As) ArgsV s =
     (case ExprAST_codegen A s of
        (None, s1) \<Rightarrow> (None, s1)
      | (Some V, s1) \<Rightarrow> codegen_Args As (ArgsV @ [V]) s1)"

fun PrototypeAST_codegen :: "PrototypeAST \<Rightarrow> state \<Rightarrow> nat \<times> state" where
  "PrototypeAST_codegen (PrototypeAST Name Args) s =
     (case Function_Create Name Args (TheModule s) of (F, M) \<Rightarrow> (F, s\<lparr>TheModule := M\<rparr>))"

text \<open>
  \<^verbatim>\<open>FunctionAST::codegen\<close> in its three parts: the function is looked up and declared when
  it is not there; the entry block is created and \<open>NamedValues\<close> is cleared and filled
  from the arguments of that function; the body is lowered and the function finished or
  erased. (\<^verbatim>\<open>Function::Create\<close> does not return null, so the second null check never fires.)
\<close>

definition resolve_Function :: "PrototypeAST \<Rightarrow> state \<Rightarrow> nat \<times> state" where
  "resolve_Function Proto s =
     (case getFunction (TheModule s) (getName Proto) of
        Some (TheFunction, F) \<Rightarrow> (TheFunction, s)
      | None \<Rightarrow> PrototypeAST_codegen Proto s)"

definition args_of :: "Module \<Rightarrow> nat \<Rightarrow> string list" where
  "args_of M h = (case map_of (FunctionList M) h of None \<Rightarrow> [] | Some F \<Rightarrow> fn_args F)"

definition record_args :: "nat \<Rightarrow> string list \<Rightarrow> (string \<times> Value option) list" where
  "record_args TheFunction names =
     foldl (\<lambda>nv (i, a). assign a (Some (Argument TheFunction i)) nv) [] (enumerate 0 names)"

definition enter_body :: "nat \<Rightarrow> state \<Rightarrow> state" where
  "enter_body TheFunction s =
     s\<lparr>TheModule := set_blocks TheFunction (EntryBlock None) (TheModule s),
       NamedValues := record_args TheFunction (args_of (TheModule s) TheFunction)\<rparr>"

definition FunctionAST_codegen :: "FunctionAST \<Rightarrow> state \<Rightarrow> nat option \<times> state" where
  "FunctionAST_codegen fn s =
     (case fn of FunctionAST Proto Body \<Rightarrow>
      case resolve_Function Proto s of (TheFunction, s1) \<Rightarrow>
        if \<not> empty_Function (TheModule s1) TheFunction
        then (None, LogError ''Function cannot be redefined'' s1)
        else (case ExprAST_codegen Body (enter_body TheFunction s1) of
                (Some RetVal, s2) \<Rightarrow>
                  (Some TheFunction,
                   s2\<lparr>TheModule := set_blocks TheFunction (EntryBlock (Some RetVal)) (TheModule s2)\<rparr>)
              | (None, s2) \<Rightarrow>
                  (None, s2\<lparr>TheModule := eraseFromParent TheFunction (TheModule s2)\<rparr>)))"

section \<open>Top-level parsing and the driver\<close>

text \<open>The three writes after a successful lowering: the line, the function, a newline.\<close>

definition report :: "string \<Rightarrow> nat \<Rightarrow> state \<Rightarrow> state" where
  "report line FnIR s =
     s\<lparr>out := out s @ [Message line, PrintIR FnIR (map_of (FunctionList (TheModule s)) FnIR),
                        Message [CHR 0x0A]]\<rparr>"

definition HandleDefinition :: "nat \<Rightarrow> state \<Rightarrow> state option" where
  "HandleDefinition n s =
     (case ParseDefinition n s of
        None \<Rightarrow> None
      | Some (Some FnAST, s1) \<Rightarrow>
          (case FunctionAST_codegen FnAST s1 of
             (Some FnIR, s2) \<Rightarrow> Some (report (''Parsed a function definition.'' @ [CHR 0x0A]) FnIR s2)
           | (None, s2) \<Rightarrow> Some s2)
      | Some (None, s1) \<Rightarrow> Some (getNextToken s1))"

definition HandleExtern :: "state \<Rightarrow> state" where
  "HandleExtern s =
     (case ParseExtern s of
        (Some ProtoAST, s1) \<Rightarrow>
          (case PrototypeAST_codegen ProtoAST s1 of
             (FnIR, s2) \<Rightarrow> report (''Parsed an extern'' @ [CHR 0x0A]) FnIR s2)
      | (None, s1) \<Rightarrow> getNextToken s1)"

definition HandleTopLevelExpression :: "nat \<Rightarrow> state \<Rightarrow> state option" where
  "HandleTopLevelExpression n s =
     (case ParseTopLevelExpr n s of
        None \<Rightarrow> None
      | Some (Some FnAST, s1) \<Rightarrow>
          (case FunctionAST_codegen FnAST s1 of
             (Some FnIR, s2) \<Rightarrow>
               (let s3 = report (''Parsed a top-level expr'' @ [CHR 0x0A]) FnIR s2
                in Some (s3\<lparr>TheModule := eraseFromParent FnIR (TheModule s3)\<rparr>))
           | (None, s2) \<Rightarrow> Some s2)
      | Some (None, s1) \<Rightarrow> Some (getNextToken s1))"

text \<open>
  \<^verbatim>\<open>MainLoop\<close>; the first argument bounds the number of rounds and the depth of the
  parser in each round, and \<open>None\<close> means that the bound was reached.
\<close>

fun MainLoop :: "nat \<Rightarrow> state \<Rightarrow> state option" where
  "MainLoop 0 s = None"
| "MainLoop (Suc n) s =
     (let s0 = s\<lparr>out := out s @ [Prompt]\<rparr>
      in if CurTok s0 = tok_eof then Some s0
         else if CurTok s0 = tok_char CHR '';'' then MainLoop n (getNextToken s0)
         else if CurTok s0 = tok_def then
           (case HandleDefinition n s0 of None \<Rightarrow> None | Some s1 \<Rightarrow> MainLoop n s1)
         else if CurTok s0 = tok_extern then MainLoop n (HandleExtern s0)
         else (case HandleTopLevelExpression n s0 of None \<Rightarrow> None | Some s1 \<Rightarrow> MainLoop n s1))"

text \<open>The globals as the program starts, with the given text on standard input.\<close>

definition empty_Module :: Module where
  "empty_Module = \<lparr>FunctionList = [], next_handle = 0, LastUnique = 0\<rparr>"

definition startup :: "string \<Rightarrow> state" where
  "startup input =
     \<lparr>stdin = input, reads = 0, LastChar = Some CHR '' '', IdentifierStr = [], NumVal = Dbl 0,
      CurTok = tok_char CHR 0x00, BinopPrecedence = [], TheModule = empty_Module,
      NamedValues = [], out = []\<rparr>"

definition InitializeModuleAndManagers :: "state \<Rightarrow> state" where
  "InitializeModuleAndManagers s = s\<lparr>TheModule := empty_Module\<rparr>"

definition install_operators :: "state \<Rightarrow> state" where
  "install_operators s =
     s\<lparr>BinopPrecedence :=
         assign CHR ''*'' 40 (assign CHR ''-'' 20 (assign CHR ''+'' 20 (assign CHR ''<'' 10
           (BinopPrecedence s))))\<rparr>"

text \<open>\<^verbatim>\<open>main\<close>: the statements before the call of \<^verbatim>\<open>MainLoop\<close>, and the call.\<close>

definition main_setup :: "string \<Rightarrow> state" where
  "main_setup input =
     (let s1 = install_operators (startup input);
          s2 = getNextToken (s1\<lparr>out := out s1 @ [Prompt]\<rparr>)
      in InitializeModuleAndManagers s2)"

definition main :: "nat \<Rightarrow> string \<Rightarrow> state option" where
  "main n input = MainLoop n (main_setup input)"

section \<open>The values generated code computes\<close>

text \<open>
  The program builds LLVM instructions and never runs them. What the instructions
  compute is fixed by the LLVM language reference: \<^verbatim>\<open>fadd\<close>, \<^verbatim>\<open>fsub\<close> and \<^verbatim>\<open>fmul\<close> are the
  arithmetic of doubles, with a NaN result when an operand is a NaN; \<^verbatim>\<open>fcmp ult\<close> yields
  true when either operand is a NaN or the first is less than the second (unordered or
  less than); \<^verbatim>\<open>uitofp\<close> turns the one-bit values 0 and 1 into 0.0 and 1.0.
\<close>

fun fadd :: "dbl \<Rightarrow> dbl \<Rightarrow> dbl" where
  "fadd (Dbl a) (Dbl b) = Dbl (a + b)"
| "fadd _ _ = NaN"

fun fsub :: "dbl \<Rightarrow> dbl \<Rightarrow> dbl" where
  "fsub (Dbl a) (Dbl b) = Dbl (a - b)"
| "fsub _ _ = NaN"

fun fmul :: "dbl \<Rightarrow> dbl \<Rightarrow> dbl" where
  "fmul (Dbl a) (Dbl b) = Dbl (a * b)"
| "fmul _ _ = NaN"

fun fcmp_ult :: "dbl \<Rightarrow> dbl \<Rightarrow> bool" where
  "fcmp_ult (Dbl a) (Dbl b) = (a < b)"
| "fcmp_ult _ _ = True"

text \<open>
  The comparison in the words of the specification, an ordered less-than (\<^verbatim>\<open>fcmp olt\<close>):
  true when neither operand is a NaN and the first is less than the second.
\<close>

fun fcmp_olt :: "dbl \<Rightarrow> dbl \<Rightarrow> bool" where
  "fcmp_olt (Dbl a) (Dbl b) = (a < b)"
| "fcmp_olt _ _ = False"

text \<open>A value at run time has the type \<^verbatim>\<open>double\<close> or the type \<^verbatim>\<open>i1\<close>.\<close>

datatype RtVal = DoubleVal dbl | BoolVal bool

fun arith :: "(dbl \<Rightarrow> dbl \<Rightarrow> RtVal) \<Rightarrow> RtVal option \<Rightarrow> RtVal option \<Rightarrow> RtVal option" where
  "arith f (Some (DoubleVal x)) (Some (DoubleVal y)) = Some (f x y)"
| "arith f _ _ = None"

fun doubles :: "RtVal list \<Rightarrow> dbl list option" where
  "doubles [] = Some []"
| "doubles (DoubleVal d # vs) = map_option ((#) d) (doubles vs)"
| "doubles (BoolVal b # vs) = None"

text \<open>
  The value of an instruction tree, given the arguments of the running function. A call
  runs the body of the callee in the module; the first argument bounds the depth of
  calls, and \<open>None\<close> is a computation that does not yield a value: the bound was reached,
  the callee has no body in the module, or an operand has the wrong type.
\<close>

fun eval_Value :: "nat \<Rightarrow> Module \<Rightarrow> dbl list \<Rightarrow> Value \<Rightarrow> RtVal option" where
  "eval_Value n M env (ConstantFP d) = Some (DoubleVal d)"
| "eval_Value n M env (Argument f i) = (if i < length env then Some (DoubleVal (env ! i)) else None)"
| "eval_Value n M env (FAdd a b) =
     arith (\<lambda>x y. DoubleVal (fadd x y)) (eval_Value n M env a) (eval_Value n M env b)"
| "eval_Value n M env (FSub a b) =
     arith (\<lambda>x y. DoubleVal (fsub x y)) (eval_Value n M env a) (eval_Value n M env b)"
| "eval_Value n M env (FMul a b) =
     arith (\<lambda>x y. DoubleVal (fmul x y)) (eval_Value n M env a) (eval_Value n M env b)"
| "eval_Value n M env (FCmpULT a b) =
     arith (\<lambda>x y. BoolVal (fcmp_ult x y)) (eval_Value n M env a) (eval_Value n M env b)"
| "eval_Value n M env (UIToFP a) =
     (case eval_Value n M env a of
        Some (BoolVal b) \<Rightarrow> Some (DoubleVal (if b then Dbl 1 else Dbl 0))
      | _ \<Rightarrow> None)"
| "eval_Value 0 M env (Call f as) = None"
| "eval_Value (Suc n) M env (Call f as) =
     (case those (map (eval_Value (Suc n) M env) as) of
        None \<Rightarrow> None
      | Some vs \<Rightarrow>
          (case doubles vs of
             None \<Rightarrow> None
           | Some ds \<Rightarrow>
               (case map_of (FunctionList M) f of
                  None \<Rightarrow> None
                | Some F \<Rightarrow>
                    (case fn_blocks F of
                       EntryBlock (Some body) \<Rightarrow>
                         if length ds = length (fn_args F) then eval_Value n M ds body else None
                     | _ \<Rightarrow> None))))"

text \<open>
  Modelled from the spec: \<^verbatim>\<open>execute(FunctionHandle) -> double\<close> of the execution
  collaborator, which the source does not contain (no execution engine is created or
  called): the value that the body of a function without parameters returns.
\<close>

definition execute :: "nat \<Rightarrow> Module \<Rightarrow> nat \<Rightarrow> dbl option" where
  "execute n M FnIR =
     (case map_of (FunctionList M) FnIR of
        None \<Rightarrow> None
      | Some F \<Rightarrow>
          (case fn_blocks F of
             EntryBlock (Some body) \<Rightarrow>
               (case eval_Value n M [] body of Some (DoubleVal d) \<Rightarrow> Some d | _ \<Rightarrow> None)
           | _ \<Rightarrow> None))"

text \<open>
  Modelled from the spec: what a bare top-level expression evaluates to. The expression
  at the front of the input is parsed and lowered as \<^verbatim>\<open>HandleTopLevelExpression\<close> does, and
  the wrapper is executed in the module as it is before the wrapper is erased.
\<close>

definition evaluate :: "nat \<Rightarrow> state \<Rightarrow> dbl option" where
  "evaluate n s =
     (case ParseTopLevelExpr n s of
        Some (Some FnAST, s1) \<Rightarrow>
          (case FunctionAST_codegen FnAST s1 of
             (Some FnIR, s2) \<Rightarrow> execute n (TheModule s2) FnIR
           | (None, s2) \<Rightarrow> None)
      | _ \<Rightarrow> None)"

fun is_Error :: "Event \<Rightarrow> bool" where
  "is_Error (Error Str) = True"
| "is_Error _ = False"


section \<open>What lowering an expression changes\<close>

text \<open>The bindings of a scope table: the names with a value that is not null.\<close>

definition bindings :: "(string \<times> Value option) list \<Rightarrow> (string \<times> Value) set" where
  "bindings nv =
     set (concat (map (\<lambda>(a, v). case map_of nv a of Some (Some V) \<Rightarrow> [(a, V)] | _ \<Rightarrow> []) nv))"

text \<open>The bindings of the parameters of a function: each name to its argument.\<close>

definition param_bindings :: "nat \<Rightarrow> string list \<Rightarrow> (string \<times> Value) set" where
  "param_bindings f names = set (zip names (map (Argument f) [0 ..< length names]))"

lemma bindings_iff: "(a, V) \<in> bindings nv \<longleftrightarrow> map_of nv a = Some (Some V)"
proof
  assume "(a, V) \<in> bindings nv"
  then show "map_of nv a = Some (Some V)"
    by (auto simp: bindings_def split: option.splits)
next
  assume m: "map_of nv a = Some (Some V)"
  then have "(a, Some V) \<in> set nv" by (rule map_of_SomeD)
  with m show "(a, V) \<in> bindings nv"
    by (force simp: bindings_def)
qed

lemma bindings_eqI:
  "(\<And>a V. (map_of nv a = Some (Some V)) = (map_of nv1 a = Some (Some V))) \<Longrightarrow> bindings nv = bindings nv1"
  by (auto simp: bindings_iff)

text \<open>
  Lowering an expression adds null entries to \<open>NamedValues\<close> and writes diagnostics, and
  changes nothing else.
\<close>

definition cg_frame :: "state \<Rightarrow> state \<Rightarrow> bool" where
  "cg_frame s s1 = (\<exists>nv es. s1 = s\<lparr>NamedValues := nv, out := out s @ map Error es\<rparr>
                            \<and> bindings nv = bindings (NamedValues s))"

lemma cg_frame_refl: "cg_frame s s"
  unfolding cg_frame_def by (rule exI [of _ "NamedValues s"], rule exI [of _ "[]"]) simp

lemma cg_frame_trans: "cg_frame s s1 \<Longrightarrow> cg_frame s1 s2 \<Longrightarrow> cg_frame s s2"
proof -
  assume "cg_frame s s1" and "cg_frame s1 s2"
  then obtain nv es nv1 es1
    where a: "s1 = s\<lparr>NamedValues := nv, out := out s @ map Error es\<rparr>"
      and ba: "bindings nv = bindings (NamedValues s)"
      and b: "s2 = s1\<lparr>NamedValues := nv1, out := out s1 @ map Error es1\<rparr>"
      and bb: "bindings nv1 = bindings (NamedValues s1)"
    unfolding cg_frame_def by blast
  have "s2 = s\<lparr>NamedValues := nv1, out := out s @ map Error (es @ es1)\<rparr>"
    by (simp add: a b)
  moreover have "bindings nv1 = bindings (NamedValues s)" using ba bb by (simp add: a)
  ultimately show "cg_frame s s2" unfolding cg_frame_def by blast
qed

lemma cg_frame_LogError: "cg_frame s (LogError Str s)"
  unfolding cg_frame_def LogError_def
  by (rule exI [of _ "NamedValues s"], rule exI [of _ "[Str]"]) simp

lemma bindings_null_entry:
  "map_of nv Name = None \<Longrightarrow> bindings (nv @ [(Name, None)]) = bindings nv"
  by (rule bindings_eqI) (auto simp: map_add_def split: option.splits if_splits)

lemma cg_frame_null_entry:
  "map_of (NamedValues s) Name = None \<Longrightarrow>
     cg_frame s (s\<lparr>NamedValues := NamedValues s @ [(Name, None)]\<rparr>)"
  unfolding cg_frame_def
  by (rule exI [of _ "NamedValues s @ [(Name, None)]"], rule exI [of _ "[]"])
     (simp add: bindings_null_entry)

lemma ExprAST_codegen_frame:
  "cg_frame s (snd (ExprAST_codegen e s))"
  "cg_frame s (snd (codegen_Args as vs s))"
proof (induction e s and as vs s rule: ExprAST_codegen_codegen_Args.induct)
  case (1 Val s)
  show ?case by (simp add: cg_frame_refl)
next
  case (2 Name s)
  show ?case
  proof (cases "map_of (NamedValues s) Name")
    case None
    have "cg_frame s (LogError ''Unknown variable name'' (s\<lparr>NamedValues := NamedValues s @ [(Name, None)]\<rparr>))"
      using cg_frame_null_entry [OF None] cg_frame_LogError by (rule cg_frame_trans)
    with None show ?thesis by simp
  next
    case (Some v)
    then show ?thesis by (cases v) (simp_all add: cg_frame_refl cg_frame_LogError)
  qed
next
  case (3 Op LHS RHS s)
  obtain L s1 where l: "ExprAST_codegen LHS s = (L, s1)" by (cases "ExprAST_codegen LHS s")
  obtain R s2 where r: "ExprAST_codegen RHS s1 = (R, s2)" by (cases "ExprAST_codegen RHS s1")
  from 3(1) l have f1: "cg_frame s s1" by simp
  from 3(2) [OF l [symmetric]] r have f2: "cg_frame s1 s2" by simp
  from f1 f2 have f: "cg_frame s s2" by (rule cg_frame_trans)
  have fe: "cg_frame s (LogError ''invalid binary operator'' s2)"
    using f cg_frame_LogError by (rule cg_frame_trans)
  from l r f fe show ?case by (auto split: option.splits)
next
  case (4 Callee Args s)
  show ?case
  proof (cases "getFunction (TheModule s) Callee")
    case None
    then show ?thesis by (simp add: cg_frame_LogError)
  next
    case (Some p)
    obtain CalleeF F where p: "p = (CalleeF, F)" by (cases p)
    show ?thesis
    proof (cases "length (fn_args F) \<noteq> length Args")
      case True
      with Some p show ?thesis by (simp add: cg_frame_LogError)
    next
      case False
      with 4 [OF Some p [symmetric]] have "cg_frame s (snd (codegen_Args Args [] s))" by simp
      with Some p False show ?thesis by (auto split: prod.splits option.splits)
    qed
  qed
next
  case (5 ArgsV s)
  show ?case by (simp add: cg_frame_refl)
next
  case (6 A As ArgsV s)
  obtain V s1 where a: "ExprAST_codegen A s = (V, s1)" by (cases "ExprAST_codegen A s")
  from 6(1) a have f1: "cg_frame s s1" by simp
  show ?case
  proof (cases V)
    case None
    with a f1 show ?thesis by simp
  next
    case (Some v)
    with 6(2) a have "cg_frame s1 (snd (codegen_Args As (ArgsV @ [v]) s1))" by simp
    with f1 have "cg_frame s (snd (codegen_Args As (ArgsV @ [v]) s1))" by (rule cg_frame_trans)
    with a Some show ?thesis by simp
  qed
qed

lemma TheModule_cg_frame: "cg_frame s s1 \<Longrightarrow> TheModule s1 = TheModule s"
  unfolding cg_frame_def by (elim exE conjE) simp

lemma bindings_cg_frame: "cg_frame s s1 \<Longrightarrow> bindings (NamedValues s1) = bindings (NamedValues s)"
  unfolding cg_frame_def by (elim exE conjE) simp


section \<open>Names made unique\<close>

lemma makeUniqueName_fresh: "fst (makeUniqueName Base dot table u) \<notin> set table"
proof (cases "find (\<lambda>k. Base @ dot @ digits k \<notin> set table) [Suc u ..< Suc u + Suc (length table)]")
  case (Some k)
  then have "Base @ dot @ digits k \<notin> set table" by (auto simp: find_Some_iff)
  with Some show ?thesis by (simp add: makeUniqueName_def)
next
  case None
  let ?f = "\<lambda>k. Base @ dot @ digits k"
  let ?R = "{Suc u ..< Suc u + Suc (length table)}"
  from None have "\<not> (\<exists>k. k \<in> set [Suc u ..< Suc u + Suc (length table)] \<and> ?f k \<notin> set table)"
    unfolding find_None_iff .
  then have "\<forall>k \<in> ?R. ?f k \<in> set table"
    unfolding set_upt by blast
  then have sub: "?f ` ?R \<subseteq> set table" by blast
  have inj: "inj_on ?f ?R" by (auto simp: inj_on_def dest: digits_inj)
  have "card (?f ` ?R) = card ?R" using inj by (rule card_image)
  then have "card (?f ` ?R) = Suc (length table)" by simp
  moreover have "card (?f ` ?R) \<le> card (set table)" using sub by (intro card_mono) auto
  moreover have "card (set table) \<le> length table" by (rule card_length)
  ultimately show ?thesis by simp
qed

lemma makeUniqueArgName_fresh: "fst (makeUniqueArgName UniqueName BaseSize table u) \<notin> set table"
proof (induction UniqueName BaseSize table u rule: makeUniqueArgName.induct)
  case (1 UniqueName BaseSize table u)
  let ?name = "take BaseSize UniqueName @ digits (Suc u)"
  show ?case
  proof (cases "NonGlobalValueMaxNameSize < length ?name \<and> 0 < BaseSize")
    case True
    have "makeUniqueArgName UniqueName BaseSize table u
        = makeUniqueArgName UniqueName (BaseSize - (length ?name - NonGlobalValueMaxNameSize)) table (Suc u)"
      by (subst makeUniqueArgName.simps) (simp only: if_P [OF True])
    with "1.IH"(1) [OF True] show ?thesis by simp
  next
    case False
    show ?thesis
    proof (cases "?name \<in> set table")
      case True
      have "makeUniqueArgName UniqueName BaseSize table u
          = makeUniqueArgName UniqueName BaseSize table (Suc u)"
        by (subst makeUniqueArgName.simps) (simp only: if_not_P [OF False] if_P [OF True])
      with "1.IH"(2) [OF False True] show ?thesis by simp
    next
      case no: False
      have "makeUniqueArgName UniqueName BaseSize table u = (?name, Suc u)"
        by (subst makeUniqueArgName.simps) (simp only: if_not_P [OF False] if_not_P [OF no])
      with no show ?thesis by simp
    qed
  qed
qed

lemma setArgNames_fresh: "set (setArgNames as table u) \<inter> set table = {} \<and> distinct (setArgNames as table u)"
proof (induction as arbitrary: table u)
  case Nil
  show ?case by simp
next
  case (Cons a as)
  let ?a = "take NonGlobalValueMaxNameSize a"
  show ?case
  proof (cases "?a \<in> set table")
    case False
    with Cons [of "?a # table" u] show ?thesis by (auto simp: Let_def)
  next
    case True
    obtain a1 u1 where m: "makeUniqueArgName ?a (length ?a) table u = (a1, u1)"
      by (cases "makeUniqueArgName ?a (length ?a) table u")
    with makeUniqueArgName_fresh [of ?a "length ?a" table u] have "a1 \<notin> set table" by simp
    with Cons [of "a1 # table" u1] True m show ?thesis by (auto simp: Let_def)
  qed
qed

lemma setArgNames_length: "length (setArgNames as table u) = length as"
  by (induction as arbitrary: table u) (auto simp: Let_def split: prod.splits)

section \<open>The invariant of the module\<close>

definition wf_Module :: "Module \<Rightarrow> bool" where
  "wf_Module M \<longleftrightarrow>
     (\<forall>x \<in> set (FunctionList M). fst x < next_handle M)
     \<and> distinct (map fst (FunctionList M))
     \<and> distinct (symbol_names M)
     \<and> (\<forall>x \<in> set (FunctionList M). distinct (fn_args (snd x)))"

lemma wf_empty_Module: "wf_Module empty_Module"
  by (simp add: wf_Module_def empty_Module_def symbol_names_def)

lemma setName_Function_fresh: "fst (setName_Function Name M) \<notin> set (symbol_names M) \<or> fst (setName_Function Name M) = []"
  using makeUniqueName_fresh [of Name "''.''" "symbol_names M" "LastUnique M"]
  by (auto simp: setName_Function_def)

lemma setName_Function_free:
  "Name \<notin> set (symbol_names M) \<Longrightarrow> fst (setName_Function Name M) = Name"
  by (simp add: setName_Function_def)

lemma symbol_names_append:
  "symbol_names (M\<lparr>FunctionList := FunctionList M @ [(h, F)]\<rparr>) =
     (if fn_name F = [] then symbol_names M else symbol_names M @ [fn_name F])"
  by (simp add: symbol_names_def)

lemma wf_Function_Create: "wf_Module M \<Longrightarrow> wf_Module (snd (Function_Create Name ArgNames M))"
proof -
  assume wf: "wf_Module M"
  obtain Name1 u1 where n1: "setName_Function Name M = (Name1, u1)"
    by (cases "setName_Function Name M")
  with setName_Function_fresh [of Name M]
  have fresh: "Name1 \<notin> set (symbol_names M) \<or> Name1 = []" by simp
  have args: "distinct (setArgNames ArgNames [] 0)" using setArgNames_fresh by blast
  let ?F = "\<lparr>fn_name = Name1, fn_args = setArgNames ArgNames [] 0, fn_blocks = NoBlocks\<rparr>"
  let ?M1 = "M\<lparr>FunctionList := FunctionList M @ [(next_handle M, ?F)]\<rparr>"
  have eq: "snd (Function_Create Name ArgNames M) =
      ?M1\<lparr>next_handle := Suc (next_handle M), LastUnique := u1\<rparr>"
    using n1 by (simp add: Function_Create_def)
  have sn: "symbol_names (?M1\<lparr>next_handle := Suc (next_handle M), LastUnique := u1\<rparr>)
      = symbol_names ?M1" by (simp add: symbol_names_def)
  have d: "distinct (symbol_names ?M1)"
    using wf fresh by (auto simp: symbol_names_append wf_Module_def)
  have h: "next_handle M \<notin> fst ` set (FunctionList M)"
    using wf by (auto simp: wf_Module_def)
  show ?thesis
    unfolding eq wf_Module_def sn
    using wf d h args by (auto simp: wf_Module_def less_Suc_eq)
qed

lemma symbol_names_erase:
  "symbol_names (eraseFromParent h M) =
     map (\<lambda>(h, F). fn_name F) (filter (\<lambda>(h1, F). h1 \<noteq> h) (filter (\<lambda>(h, F). fn_name F \<noteq> []) (FunctionList M)))"
  by (simp add: symbol_names_def eraseFromParent_def conj_commute)

lemma distinct_symbol_names_erase:
  "distinct (symbol_names M) \<Longrightarrow> distinct (symbol_names (eraseFromParent h M))"
  unfolding symbol_names_erase unfolding symbol_names_def by (rule distinct_map_filter)

lemma wf_eraseFromParent: "wf_Module M \<Longrightarrow> wf_Module (eraseFromParent h M)"
proof -
  assume wf: "wf_Module M"
  then have "distinct (symbol_names (eraseFromParent h M))"
    by (simp add: wf_Module_def distinct_symbol_names_erase)
  moreover have "distinct (map fst (FunctionList (eraseFromParent h M)))"
    using wf by (simp add: wf_Module_def eraseFromParent_def distinct_map_filter)
  ultimately show ?thesis using wf
    by (auto simp: wf_Module_def eraseFromParent_def)
qed

lemma map_fst_set_blocks: "map fst (FunctionList (set_blocks h b M)) = map fst (FunctionList M)"
  by (auto simp: set_blocks_def)

lemma symbol_names_set_blocks: "symbol_names (set_blocks h b M) = symbol_names M"
  by (auto simp: set_blocks_def symbol_names_def filter_map comp_def split_def intro!: filter_cong)

lemma wf_set_blocks: "wf_Module M \<Longrightarrow> wf_Module (set_blocks h b M)"
  unfolding wf_Module_def symbol_names_set_blocks map_fst_set_blocks
  by (auto simp: set_blocks_def)

lemma getFunction_SomeD:
  "getFunction M Name = Some (h, F) \<Longrightarrow> (h, F) \<in> set (FunctionList M) \<and> fn_name F = Name \<and> Name \<noteq> []"
  by (auto simp: getFunction_def find_Some_iff in_set_conv_nth split: if_splits)

lemma getFunction_None_iff:
  "getFunction M Name = None \<longleftrightarrow> Name = [] \<or> Name \<notin> set (symbol_names M)"
  by (auto simp: getFunction_def find_None_iff symbol_names_def)

lemma wf_map_of:
  "wf_Module M \<Longrightarrow> (h, F) \<in> set (FunctionList M) \<Longrightarrow> map_of (FunctionList M) h = Some F"
  by (simp add: wf_Module_def)

lemma map_of_eraseFromParent: "map_of (FunctionList (eraseFromParent h M)) h = None"
  by (auto simp: eraseFromParent_def map_of_eq_None_iff)

lemma erase_set_blocks: "eraseFromParent h (set_blocks h b M) = eraseFromParent h M"
proof -
  have "filter (\<lambda>(h1, F). h1 \<noteq> h)
          (map (\<lambda>(h1, F). if h1 = h then (h1, F\<lparr>fn_blocks := b\<rparr>) else (h1, F)) xs)
        = filter (\<lambda>(h1, F). h1 \<noteq> h) xs" for xs :: "(nat \<times> Function) list"
    by (induction xs) auto
  then show ?thesis by (simp add: eraseFromParent_def set_blocks_def)
qed

lemma symbol_names_erase_found:
  assumes wf: "wf_Module M" and g: "getFunction M Name = Some (h, F)"
  shows "Name \<notin> set (symbol_names (eraseFromParent h M))"
proof
  assume "Name \<in> set (symbol_names (eraseFromParent h M))"
  then obtain h1 F1 where in1: "(h1, F1) \<in> set (FunctionList M)" and n1: "fn_name F1 = Name"
      and ne: "h1 \<noteq> h"
    by (auto simp: symbol_names_erase)
  from g have in0: "(h, F) \<in> set (FunctionList M)" and n0: "fn_name F = Name" and nn: "Name \<noteq> []"
    using getFunction_SomeD by blast+
  let ?xs = "filter (\<lambda>(h, F). fn_name F \<noteq> []) (FunctionList M)"
  from wf have "distinct (map (\<lambda>(h, F). fn_name F) ?xs)" by (simp add: wf_Module_def symbol_names_def)
  then have "inj_on (\<lambda>(h, F). fn_name F) (set ?xs)" by (simp add: distinct_map)
  moreover from in0 n0 nn have "(h, F) \<in> set ?xs" by simp
  moreover from in1 n1 nn have "(h1, F1) \<in> set ?xs" by simp
  ultimately have "(h, F) = (h1, F1)"
    using n0 n1 inj_onD [of "\<lambda>(h, F). fn_name F" "set ?xs" "(h, F)" "(h1, F1)"] by simp
  with ne show False by simp
qed

lemma empty_Function_found:
  "wf_Module M \<Longrightarrow> getFunction M Name = Some (h, F) \<Longrightarrow> empty_Function M h \<longleftrightarrow> fn_blocks F = NoBlocks"
proof -
  assume wf: "wf_Module M" and g: "getFunction M Name = Some (h, F)"
  from g have "(h, F) \<in> set (FunctionList M)" using getFunction_SomeD by blast
  with wf have "map_of (FunctionList M) h = Some F" by (rule wf_map_of)
  then show ?thesis by (simp add: empty_Function_def)
qed

lemma erase_fresh_handle:
  assumes "wf_Module M"
  shows "FunctionList (eraseFromParent (next_handle M) (snd (Function_Create Name ArgNames M))) = FunctionList M"
proof -
  from assms have "filter (\<lambda>(h1, F). h1 \<noteq> next_handle M) (FunctionList M) = FunctionList M"
    by (auto simp: wf_Module_def intro!: filter_True)
  then show ?thesis
    by (simp add: Function_Create_def eraseFromParent_def split: prod.splits)
qed

text \<open>The module after a definition whose body fails.\<close>

lemma failed_body_found:
  assumes wf: "wf_Module (TheModule s)"
    and g: "getFunction (TheModule s) (getName Proto) = Some (h, F)"
    and e: "fn_blocks F = NoBlocks"
    and b: "fst (ExprAST_codegen Body (enter_body h s)) = None"
  shows "fst (FunctionAST_codegen (FunctionAST Proto Body) s) = None"
    and "TheModule (snd (FunctionAST_codegen (FunctionAST Proto Body) s)) = eraseFromParent h (TheModule s)"
proof -
  obtain s2 where c: "ExprAST_codegen Body (enter_body h s) = (None, s2)"
    using b by (cases "ExprAST_codegen Body (enter_body h s)") simp
  have "cg_frame (enter_body h s) s2" using ExprAST_codegen_frame(1) [of "enter_body h s" Body] c by simp
  then have m: "TheModule s2 = set_blocks h (EntryBlock None) (TheModule s)"
    by (simp add: TheModule_cg_frame enter_body_def)
  have r: "resolve_Function Proto s = (h, s)" using g by (simp add: resolve_Function_def)
  have em: "empty_Function (TheModule s) h" using wf g e by (simp add: empty_Function_found)
  from r em c m show "fst (FunctionAST_codegen (FunctionAST Proto Body) s) = None"
    and "TheModule (snd (FunctionAST_codegen (FunctionAST Proto Body) s)) = eraseFromParent h (TheModule s)"
    by (simp_all add: FunctionAST_codegen_def erase_set_blocks)
qed

lemma resolve_fresh:
  assumes "getFunction (TheModule s) (getName Proto) = None"
  shows "fst (resolve_Function Proto s) = next_handle (TheModule s)"
    and "TheModule (snd (resolve_Function Proto s)) = snd (Function_Create (getName Proto) (case Proto of PrototypeAST n a \<Rightarrow> a) (TheModule s))"
  using assms by (cases Proto; simp add: resolve_Function_def split: prod.splits; simp add: Function_Create_def split: prod.splits)+

lemma empty_Function_fresh:
  assumes "wf_Module M"
  shows "empty_Function (snd (Function_Create Name ArgNames M)) (next_handle M)"
proof -
  from assms have "next_handle M \<notin> fst ` set (FunctionList M)" by (auto simp: wf_Module_def)
  then have "map_of (FunctionList M) (next_handle M) = None" by (simp add: map_of_eq_None_iff)
  then show ?thesis
    by (simp add: empty_Function_def Function_Create_def map_add_def split: prod.splits)
qed

lemma failed_body_fresh:
  assumes wf: "wf_Module (TheModule s)"
    and g: "getFunction (TheModule s) (getName Proto) = None"
    and b: "fst (ExprAST_codegen Body (enter_body (next_handle (TheModule s)) (snd (resolve_Function Proto s)))) = None"
  shows "fst (FunctionAST_codegen (FunctionAST Proto Body) s) = None"
    and "FunctionList (TheModule (snd (FunctionAST_codegen (FunctionAST Proto Body) s))) = FunctionList (TheModule s)"
proof -
  let ?h = "next_handle (TheModule s)"
  obtain s1 where r: "resolve_Function Proto s = (?h, s1)"
    using resolve_fresh(1) [OF g] by (cases "resolve_Function Proto s") simp
  obtain args where p: "Proto = PrototypeAST (getName Proto) args" by (cases Proto) simp
  have m1: "TheModule s1 = snd (Function_Create (getName Proto) args (TheModule s))"
    using resolve_fresh(2) [OF g] r p by (metis PrototypeAST.case snd_conv)
  obtain s2 where c: "ExprAST_codegen Body (enter_body ?h s1) = (None, s2)"
    using b r by (cases "ExprAST_codegen Body (enter_body ?h s1)") simp
  have "cg_frame (enter_body ?h s1) s2" using ExprAST_codegen_frame(1) [of "enter_body ?h s1" Body] c by simp
  then have m: "TheModule s2 = set_blocks ?h (EntryBlock None) (TheModule s1)"
    by (simp add: TheModule_cg_frame enter_body_def)
  have em: "empty_Function (TheModule s1) ?h" unfolding m1 using wf by (rule empty_Function_fresh)
  from r em c m show "fst (FunctionAST_codegen (FunctionAST Proto Body) s) = None"
    by (simp add: FunctionAST_codegen_def)
  from r em c m have "TheModule (snd (FunctionAST_codegen (FunctionAST Proto Body) s)) = eraseFromParent ?h (TheModule s1)"
    by (simp add: FunctionAST_codegen_def erase_set_blocks)
  then show "FunctionList (TheModule (snd (FunctionAST_codegen (FunctionAST Proto Body) s))) = FunctionList (TheModule s)"
    unfolding m1 using wf by (simp add: erase_fresh_handle)
qed

lemma getFunction_FunctionList:
  "FunctionList M1 = FunctionList M \<Longrightarrow> getFunction M1 Name = getFunction M Name"
  by (simp add: getFunction_def)

lemma symbol_names_FunctionList:
  "FunctionList M1 = FunctionList M \<Longrightarrow> symbol_names M1 = symbol_names M"
  by (simp add: symbol_names_def)

lemma map_of_fresh_handle: "wf_Module M \<Longrightarrow> map_of (FunctionList M) (next_handle M) = None"
proof -
  assume "wf_Module M"
  then have "next_handle M \<notin> fst ` set (FunctionList M)" by (auto simp: wf_Module_def)
  then show ?thesis by (simp add: map_of_eq_None_iff)
qed

lemma getFunction_declared:
  assumes "Name \<noteq> []" and "Name \<notin> set (symbol_names M)"
  shows "getFunction (snd (Function_Create Name ArgNames M)) Name \<noteq> None"
proof -
  obtain Name1 u1 where n: "setName_Function Name M = (Name1, u1)" by (cases "setName_Function Name M")
  with setName_Function_free [OF assms(2)] have "Name1 = Name" by simp
  with n assms(1) have "Name \<in> set (symbol_names (snd (Function_Create Name ArgNames M)))"
    by (simp add: Function_Create_def symbol_names_def)
  with assms(1) show ?thesis by (simp add: getFunction_None_iff)
qed

lemma unknown_function:
  "getFunction (TheModule s) Callee = None \<Longrightarrow>
     ExprAST_codegen (CallExprAST Callee Args) s = (None, LogError ''Unknown function referenced'' s)"
  by simp

lemma TheModule_PrototypeAST_codegen:
  "TheModule (snd (PrototypeAST_codegen (PrototypeAST Name Args) s))
     = snd (Function_Create Name Args (TheModule s))"
  by (simp split: prod.splits)

section \<open>The scope table\<close>

lemma map_of_assign: "map_of (assign k v al) = (map_of al)(k \<mapsto> v)"
  by (induction al) (auto simp: fun_eq_iff)

lemma map_of_record_loop:
  "distinct names \<Longrightarrow>
   map_of (foldl (\<lambda>nv (i, a). assign a (Some (Argument f i)) nv) nv0 (enumerate n names)) a =
     (if a \<in> set names then Some (Some (Argument f (n + (THE i. i < length names \<and> names ! i = a))))
      else map_of nv0 a)"
proof (induction names arbitrary: nv0 n)
  case Nil
  show ?case by simp
next
  case (Cons x xs)
  from Cons.prems have d: "distinct xs" and nx: "x \<notin> set xs" by simp_all
  show ?case
  proof (cases "a \<in> set xs")
    case True
    then obtain j where j: "j < length xs" "xs ! j = a" by (auto simp: in_set_conv_nth)
    have uj: "(THE i. i < length xs \<and> xs ! i = a) = j"
      using j d by (intro the_equality) (auto dest: nth_eq_iff_index_eq [THEN iffD1, rotated -1])
    have "(THE i. i < length (x # xs) \<and> (x # xs) ! i = a) = Suc j"
    proof (rule the_equality)
      show "Suc j < length (x # xs) \<and> (x # xs) ! Suc j = a" using j by simp
    next
      fix i assume i: "i < length (x # xs) \<and> (x # xs) ! i = a"
      with True nx have "i \<noteq> 0" by (cases i) auto
      then obtain i1 where i1: "i = Suc i1" by (cases i) auto
      with i have "i1 < length xs" "xs ! i1 = a" by simp_all
      with j d have "i1 = j" by (metis nth_eq_iff_index_eq)
      with i1 show "i = Suc j" by simp
    qed
    with True uj Cons.IH [OF d, of "assign x (Some (Argument f n)) nv0" "Suc n"]
    show ?thesis by simp
  next
    case False
    show ?thesis
    proof (cases "a = x")
      case True
      have "(THE i. i < length (x # xs) \<and> (x # xs) ! i = a) = 0"
      proof (rule the_equality)
        show "0 < length (x # xs) \<and> (x # xs) ! 0 = a" using True by simp
      next
        fix i assume i: "i < length (x # xs) \<and> (x # xs) ! i = a"
        show "i = 0"
        proof (cases i)
          case 0
          then show ?thesis .
        next
          case (Suc i1)
          with i have "xs ! i1 = a" "i1 < length xs" by simp_all
          then have "a \<in> set xs" by (auto simp: in_set_conv_nth)
          with False show ?thesis by simp
        qed
      qed
      with True False Cons.IH [OF d, of "assign x (Some (Argument f n)) nv0" "Suc n"]
      show ?thesis by (simp add: map_of_assign)
    next
      case ne: False
      with False Cons.IH [OF d, of "assign x (Some (Argument f n)) nv0" "Suc n"]
      show ?thesis by (simp add: map_of_assign)
    qed
  qed
qed

lemma bindings_record_args:
  assumes "distinct names"
  shows "bindings (record_args f names) = param_bindings f names"
proof -
  have m: "map_of (record_args f names) a =
     (if a \<in> set names then Some (Some (Argument f (THE i. i < length names \<and> names ! i = a)))
      else None)" for a
    using map_of_record_loop [OF assms, of f "[]" 0 a] by (simp add: record_args_def)
  have pb: "param_bindings f names = {(names ! i, Argument f i) | i. i < length names}"
    by (auto simp: param_bindings_def set_zip)
  show ?thesis
    unfolding pb
  proof (intro set_eqI iffI)
    fix p assume pin: "p \<in> bindings (record_args f names)"
    obtain a V where p: "p = (a, V)" by (cases p)
    with pin have b: "map_of (record_args f names) a = Some (Some V)"
      by (simp add: bindings_iff)
    from b m [of a] have a: "a \<in> set names"
      and V: "V = Argument f (THE i. i < length names \<and> names ! i = a)"
      by (auto split: if_splits)
    from a obtain j where j: "j < length names" "names ! j = a" by (auto simp: in_set_conv_nth)
    have "(THE i. i < length names \<and> names ! i = a) = j"
      using j assms by (intro the_equality) (auto dest: nth_eq_iff_index_eq [THEN iffD1, rotated -1])
    with V p j show "p \<in> {(names ! i, Argument f i) | i. i < length names}" by auto
  next
    fix p assume "p \<in> {(names ! i, Argument f i) | i. i < length names}"
    then obtain j where j: "j < length names" and p: "p = (names ! j, Argument f j)" by auto
    have "(THE i. i < length names \<and> names ! i = names ! j) = j"
      using j assms by (intro the_equality) (auto dest: nth_eq_iff_index_eq [THEN iffD1, rotated -1])
    with m [of "names ! j"] j have "map_of (record_args f names) (names ! j) = Some (Some (Argument f j))"
      by simp
    with p show "p \<in> bindings (record_args f names)" by (simp add: bindings_iff)
  qed
qed

lemma setArgNames_cut:
  "distinct (map (take NonGlobalValueMaxNameSize) as)
   \<Longrightarrow> set (map (take NonGlobalValueMaxNameSize) as) \<inter> set table = {}
   \<Longrightarrow> setArgNames as table u = map (take NonGlobalValueMaxNameSize) as"
  by (induction as arbitrary: table u) (auto simp: Let_def)

lemma setArgNames_id:
  assumes "distinct as" and "set as \<inter> set table = {}"
    and "\<forall>a \<in> set as. length a \<le> NonGlobalValueMaxNameSize"
  shows "setArgNames as table u = as"
proof -
  from assms(3) have m: "map (take NonGlobalValueMaxNameSize) as = as"
    by (induction as) simp_all
  with assms(1,2) setArgNames_cut [of as table u] show ?thesis by simp
qed

lemma wf_resolve_Function:
  assumes "wf_Module (TheModule s)"
  shows "wf_Module (TheModule (snd (resolve_Function Proto s)))"
proof (cases "getFunction (TheModule s) (getName Proto)")
  case None
  obtain Name Args where p: "Proto = PrototypeAST Name Args" by (cases Proto)
  have "TheModule (snd (resolve_Function Proto s)) = snd (Function_Create Name Args (TheModule s))"
    using None p by (simp add: resolve_Function_def split: prod.splits)
  with assms show ?thesis by (simp add: wf_Function_Create)
next
  case (Some p)
  with assms show ?thesis by (cases p) (simp add: resolve_Function_def)
qed

lemma distinct_args_of: "wf_Module M \<Longrightarrow> distinct (args_of M h)"
proof -
  assume wf: "wf_Module M"
  show ?thesis
  proof (cases "map_of (FunctionList M) h")
    case None
    then show ?thesis by (simp add: args_of_def)
  next
    case (Some F)
    then have "(h, F) \<in> set (FunctionList M)" by (rule map_of_SomeD)
    with wf have "distinct (fn_args F)" by (auto simp: wf_Module_def)
    with Some show ?thesis by (simp add: args_of_def)
  qed
qed

lemma args_of_fresh:
  assumes "wf_Module M"
  shows "args_of (snd (Function_Create Name ArgNames M)) (next_handle M) = setArgNames ArgNames [] 0"
proof -
  from assms have "next_handle M \<notin> fst ` set (FunctionList M)" by (auto simp: wf_Module_def)
  then have "map_of (FunctionList M) (next_handle M) = None" by (simp add: map_of_eq_None_iff)
  then show ?thesis
    by (simp add: args_of_def Function_Create_def map_add_def split: prod.splits)
qed

section \<open>What the lexer and the parser leave alone\<close>

definition lex_frame :: "state \<Rightarrow> state \<Rightarrow> bool" where
  "lex_frame s s1 \<longleftrightarrow> TheModule s1 = TheModule s \<and> NamedValues s1 = NamedValues s \<and> out s1 = out s
     \<and> CurTok s1 = CurTok s \<and> BinopPrecedence s1 = BinopPrecedence s"

lemma lex_frame_refl [simp]: "lex_frame s s"
  by (simp add: lex_frame_def)

lemma lex_frame_trans: "lex_frame s s1 \<Longrightarrow> lex_frame s1 s2 \<Longrightarrow> lex_frame s s2"
  by (simp add: lex_frame_def)

lemma lex_frame_getchar [simp]: "lex_frame s (getchar s)"
  by (simp add: lex_frame_def getchar_def split: list.splits)

lemma lex_frame_skip_whitespace: "lex_frame s (skip_whitespace s)"
proof (induction s rule: skip_whitespace.induct)
  case (1 s)
  show ?case
  proof (cases "isspace (LastChar s)")
    case True
    with 1 have "lex_frame (getchar s) (skip_whitespace (getchar s))" by simp
    with True show ?thesis
      by (subst skip_whitespace.simps) (auto intro: lex_frame_trans [OF lex_frame_getchar])
  next
    case False
    then show ?thesis by (subst skip_whitespace.simps) simp
  qed
qed

lemma lex_frame_read_identifier: "lex_frame s (read_identifier s)"
proof (induction s rule: read_identifier.induct)
  case (1 s)
  let ?s1 = "getchar s"
  let ?s2 = "?s1\<lparr>IdentifierStr := IdentifierStr ?s1 @ [to_char (LastChar ?s1)]\<rparr>"
  have f: "lex_frame s ?s2" using lex_frame_getchar [of s] by (simp add: lex_frame_def)
  show ?case
  proof (cases "isalnum (LastChar ?s1)")
    case True
    with 1 have "lex_frame ?s2 (read_identifier ?s2)" by (simp add: Let_def)
    with f have "lex_frame s (read_identifier ?s2)" by (rule lex_frame_trans)
    with True show ?thesis by (subst read_identifier.simps) (simp add: Let_def)
  next
    case False
    then show ?thesis by (subst read_identifier.simps) (simp add: Let_def)
  qed
qed

lemma lex_frame_read_number: "lex_frame s (snd (read_number NumStr s))"
proof (induction NumStr s rule: read_number.induct)
  case (1 NumStr s)
  let ?s1 = "getchar s"
  show ?case
  proof (cases "isdigit (LastChar ?s1) \<or> LastChar ?s1 = Some CHR ''.''")
    case True
    with 1 have "lex_frame ?s1 (snd (read_number (NumStr @ [to_char (LastChar s)]) ?s1))"
      by (simp add: Let_def)
    with lex_frame_getchar have "lex_frame s (snd (read_number (NumStr @ [to_char (LastChar s)]) ?s1))"
      by (rule lex_frame_trans)
    with True show ?thesis by (subst read_number.simps) (simp add: Let_def)
  next
    case False
    then show ?thesis by (subst read_number.simps) (simp add: Let_def)
  qed
qed

lemma lex_frame_skip_comment: "lex_frame s (skip_comment s)"
proof (induction s rule: skip_comment.induct)
  case (1 s)
  let ?s1 = "getchar s"
  show ?case
  proof (cases "LastChar ?s1 \<noteq> None \<and> LastChar ?s1 \<noteq> Some CHR 0x0A \<and> LastChar ?s1 \<noteq> Some CHR 0x0D")
    case True
    with 1 have "lex_frame ?s1 (skip_comment ?s1)" by (simp add: Let_def)
    with lex_frame_getchar have "lex_frame s (skip_comment ?s1)" by (rule lex_frame_trans)
    with True show ?thesis by (subst skip_comment.simps) (simp add: Let_def)
  next
    case False
    then show ?thesis by (subst skip_comment.simps) (auto simp: Let_def)
  qed
qed

lemma lex_frame_gettok: "lex_frame s0 (snd (gettok s0))"
proof (induction s0 rule: gettok.induct)
  case (1 s0)
  let ?s = "skip_whitespace s0"
  have ws: "lex_frame s0 ?s" by (rule lex_frame_skip_whitespace)
  have sc: "lex_frame s0 (skip_comment ?s)"
    using ws lex_frame_skip_comment by (rule lex_frame_trans)
  have id: "lex_frame s0 (read_identifier (?s\<lparr>IdentifierStr := x\<rparr>))" for x
  proof -
    have "lex_frame s0 (?s\<lparr>IdentifierStr := x\<rparr>)" using ws by (simp add: lex_frame_def)
    then show ?thesis using lex_frame_read_identifier by (rule lex_frame_trans)
  qed
  have nm: "lex_frame s0 ((snd (read_number [] ?s))\<lparr>NumVal := x\<rparr>)" for x
  proof -
    have "lex_frame s0 (snd (read_number [] ?s))"
      using ws lex_frame_read_number by (rule lex_frame_trans)
    then show ?thesis by (simp add: lex_frame_def)
  qed
  have gc: "lex_frame s0 (getchar ?s)" "lex_frame s0 (getchar (skip_comment ?s))"
    using ws sc lex_frame_getchar by (blast intro: lex_frame_trans)+
  show ?case
  proof (cases "\<not> isalpha (LastChar ?s) \<and> \<not> (isdigit (LastChar ?s) \<or> LastChar ?s = Some CHR ''.'')
                \<and> LastChar ?s = Some CHR ''#'' \<and> LastChar (skip_comment ?s) \<noteq> None")
    case True
    then have eq: "gettok s0 = gettok (skip_comment ?s)"
      by (subst gettok.simps) (simp add: Let_def isalpha_def isdigit_def)
    from True "1.IH" [of ?s] have "lex_frame (skip_comment ?s) (snd (gettok (skip_comment ?s)))"
      by (simp add: isalpha_def isdigit_def)
    with sc show ?thesis unfolding eq by (rule lex_frame_trans)
  next
    case False
    with ws sc id nm gc show ?thesis
      by (subst gettok.simps) (auto simp: Let_def split: prod.splits option.splits)
  qed
qed

text \<open>
  What is left of the input for the parser: what the lexer has left to read, and the
  current token unless it is the end token.
\<close>

definition todo :: "state \<Rightarrow> nat" where
  "todo s = pending s + (if CurTok s = tok_eof then 0 else 1)"

lemma todo_getNextToken_le: "todo (getNextToken s) \<le> todo s"
proof -
  obtain t s1 where g: "gettok s = (t, s1)" by (cases "gettok s")
  with pending_gettok [of s] show ?thesis
    by (auto simp: todo_def getNextToken_def)
qed

lemma todo_getNextToken: "CurTok s \<noteq> tok_eof \<Longrightarrow> todo (getNextToken s) < todo s"
proof -
  assume c: "CurTok s \<noteq> tok_eof"
  obtain t s1 where g: "gettok s = (t, s1)" by (cases "gettok s")
  with pending_gettok [of s] c show ?thesis
    by (auto simp: todo_def getNextToken_def)
qed

lemma todo_LogError [simp]: "todo (LogError Str s) = todo s"
  by (simp add: todo_def pending_def LogError_def)

lemma GetTokPrecedence_state:
  "snd (GetTokPrecedence s) = s
   \<or> snd (GetTokPrecedence s) = s\<lparr>BinopPrecedence := BinopPrecedence s @ [(tok_to_char (CurTok s), 0)]\<rparr>"
  by (simp add: GetTokPrecedence_def split: option.splits)

lemma GetTokPrecedence_input:
  "todo (snd (GetTokPrecedence s)) = todo s \<and> CurTok (snd (GetTokPrecedence s)) = CurTok s"
  using GetTokPrecedence_state [of s] by (auto simp: todo_def pending_def)

text \<open>
  The parser leaves the module and the scope table alone, writes diagnostics only, and
  never gives back input.
\<close>

definition parse_frame :: "state \<Rightarrow> state \<Rightarrow> bool" where
  "parse_frame s s1 \<longleftrightarrow> TheModule s1 = TheModule s \<and> NamedValues s1 = NamedValues s
     \<and> (\<exists>es. out s1 = out s @ map Error es) \<and> todo s1 \<le> todo s"

lemma parse_frame_refl [simp]: "parse_frame s s"
  unfolding parse_frame_def by (auto intro: exI [of _ "[]"])

lemma parse_frame_trans: "parse_frame s s1 \<Longrightarrow> parse_frame s1 s2 \<Longrightarrow> parse_frame s s2"
proof -
  assume a: "parse_frame s s1" and b: "parse_frame s1 s2"
  from a obtain es where e1: "out s1 = out s @ map Error es" by (auto simp: parse_frame_def)
  from b obtain es1 where e2: "out s2 = out s1 @ map Error es1" by (auto simp: parse_frame_def)
  have "out s2 = out s @ map Error (es @ es1)" by (simp add: e1 e2)
  then have "\<exists>es. out s2 = out s @ map Error es" by blast
  with a b show ?thesis by (simp add: parse_frame_def)
qed

lemma parse_frame_getNextToken [simp]: "parse_frame s (getNextToken s)"
proof -
  obtain t s1 where g: "gettok s = (t, s1)" by (cases "gettok s")
  with lex_frame_gettok [of s] have "lex_frame s s1" by simp
  with g have "TheModule (getNextToken s) = TheModule s" "NamedValues (getNextToken s) = NamedValues s"
    "out (getNextToken s) = out s @ map Error []"
    by (simp_all add: getNextToken_def lex_frame_def)
  with todo_getNextToken_le [of s] show ?thesis unfolding parse_frame_def by blast
qed

lemma parse_frame_LogError [simp]: "parse_frame s (LogError Str s)"
proof -
  have "out (LogError Str s) = out s @ map Error [Str]" by (simp add: LogError_def)
  then have "\<exists>es. out (LogError Str s) = out s @ map Error es" by blast
  then show ?thesis by (simp add: parse_frame_def) (simp add: LogError_def)
qed

lemma parse_frame_GetTokPrecedence [simp]: "parse_frame s (snd (GetTokPrecedence s))"
proof -
  have "out (snd (GetTokPrecedence s)) = out s @ map Error []"
    "TheModule (snd (GetTokPrecedence s)) = TheModule s"
    "NamedValues (snd (GetTokPrecedence s)) = NamedValues s"
    using GetTokPrecedence_state [of s] by auto
  with GetTokPrecedence_input [of s] show ?thesis unfolding parse_frame_def by (metis order_refl)
qed

lemmas pf_next = parse_frame_trans [OF _ parse_frame_getNextToken]
lemmas pf_err = parse_frame_trans [OF _ parse_frame_LogError]

lemma parse_frame_ParseNumberExpr: "parse_frame s (snd (ParseNumberExpr s))"
  by (simp add: ParseNumberExpr_def)

lemma parse_frame_Parse:
  "(\<forall>s r s1. ParsePrimary n s = Some (r, s1) \<longrightarrow> parse_frame s s1)
   \<and> (\<forall>s r s1. ParseParenExpr n s = Some (r, s1) \<longrightarrow> parse_frame s s1)
   \<and> (\<forall>s r s1. ParseIdentifierExpr n s = Some (r, s1) \<longrightarrow> parse_frame s s1)
   \<and> (\<forall>s r s1 I A. ParseArgs n I A s = Some (r, s1) \<longrightarrow> parse_frame s s1)
   \<and> (\<forall>s r s1 p L. ParseBinOpRHS n p L s = Some (r, s1) \<longrightarrow> parse_frame s s1)
   \<and> (\<forall>s r s1. ParseExpression n s = Some (r, s1) \<longrightarrow> parse_frame s s1)"
proof (induction n)
  case 0
  show ?case by simp
next
  case (Suc n)
  note IH = Suc.IH
  note prim = IH [THEN conjunct1, rule_format]
  note paren = IH [THEN conjunct2, THEN conjunct1, rule_format]
  note ident = IH [THEN conjunct2, THEN conjunct2, THEN conjunct1, rule_format]
  note args = IH [THEN conjunct2, THEN conjunct2, THEN conjunct2, THEN conjunct1, rule_format]
  note rhs = IH [THEN conjunct2, THEN conjunct2, THEN conjunct2, THEN conjunct2, THEN conjunct1, rule_format]
  note expr = IH [THEN conjunct2, THEN conjunct2, THEN conjunct2, THEN conjunct2, THEN conjunct2, rule_format]
  have 1: "parse_frame s s1" if "ParsePrimary (Suc n) s = Some (r, s1)" for s r s1
    using that ident [of s r s1] paren [of s r s1]
    by (auto simp: ParseNumberExpr_def split: if_splits)
  have 2: "parse_frame s s1" if "ParseParenExpr (Suc n) s = Some (r, s1)" for s r s1
  proof -
    from that obtain r0 s0 where e: "ParseExpression n (getNextToken s) = Some (r0, s0)"
      by (auto split: option.splits)
    then have f: "parse_frame s s0"
      using expr parse_frame_getNextToken parse_frame_trans by blast
    from that e f show ?thesis
      by (auto split: option.splits if_splits intro: pf_next pf_err)
  qed
  have 3: "parse_frame s s1" if "ParseIdentifierExpr (Suc n) s = Some (r, s1)" for s r s1
  proof -
    have f1: "parse_frame s (getNextToken s)" by simp
    have f2: "parse_frame s (getNextToken (getNextToken s))" by (rule pf_next [OF f1])
    have f3: "parse_frame s (getNextToken (getNextToken (getNextToken s)))" by (rule pf_next [OF f2])
    have f4: "parse_frame s s1" if "ParseArgs n I A (getNextToken (getNextToken s)) = Some (r, s1)" for I A
      using f2 args [OF that] by (rule parse_frame_trans)
    from that f1 f3 f4 show ?thesis
      by (auto simp: Let_def split: if_splits)
  qed
  have 4: "parse_frame s s1" if "ParseArgs (Suc n) I A s = Some (r, s1)" for s r s1 I A
  proof -
    from that obtain r0 s0 where e: "ParseExpression n s = Some (r0, s0)"
      by (auto split: option.splits)
    then have f: "parse_frame s s0" by (rule expr)
    have f4: "parse_frame s s1" if "ParseArgs n I1 A1 (getNextToken s0) = Some (r, s1)" for I1 A1
      using pf_next [OF f] args [OF that] by (rule parse_frame_trans)
    from that e f f4 show ?thesis
      by (auto split: option.splits if_splits intro: pf_next pf_err)
  qed
  have 5: "parse_frame s s1" if "ParseBinOpRHS (Suc n) p L s = Some (r, s1)" for s r s1 p L
  proof -
    obtain TokPrec sa where g: "GetTokPrecedence s = (TokPrec, sa)" by (cases "GetTokPrecedence s")
    have fa: "parse_frame s sa" using parse_frame_GetTokPrecedence [of s] g by simp
    show ?thesis
    proof (cases "TokPrec < p")
      case True
      with that g fa show ?thesis by simp
    next
      case False
      with that g obtain r0 s0 where e: "ParsePrimary n (getNextToken sa) = Some (r0, s0)"
        by (auto simp: Let_def split: option.splits)
      have f0: "parse_frame s s0" using pf_next [OF fa] prim [OF e] by (rule parse_frame_trans)
      show ?thesis
      proof (cases r0)
        case None
        with that g False e f0 show ?thesis by (simp add: Let_def)
      next
        case (Some RHS)
        obtain NextPrec sb where g2: "GetTokPrecedence s0 = (NextPrec, sb)" by (cases "GetTokPrecedence s0")
        have fb: "parse_frame s sb" using f0 parse_frame_GetTokPrecedence [of s0] g2
          by (auto intro: parse_frame_trans)
        have fc: "parse_frame s sc" if "ParseBinOpRHS n p1 L1 sb = Some (r1, sc)" for p1 L1 r1 sc
          using fb rhs [OF that] by (rule parse_frame_trans)
        have fd: "parse_frame s sd"
          if "ParseBinOpRHS n p1 L1 sb = Some (r1, sc)" "ParseBinOpRHS n p2 L2 sc = Some (r2, sd)"
          for p1 L1 r1 sc p2 L2 r2 sd
          using fc [OF that(1)] rhs [OF that(2)] by (rule parse_frame_trans)
        from that g False e Some g2 fc fd show ?thesis
          by (auto simp: Let_def split: if_splits option.splits)
      qed
    qed
  qed
  have 6: "parse_frame s s1" if "ParseExpression (Suc n) s = Some (r, s1)" for s r s1
  proof -
    from that obtain r0 s0 where e: "ParsePrimary n s = Some (r0, s0)"
      by (auto split: option.splits)
    then have f: "parse_frame s s0" by (rule prim)
    have f2: "parse_frame s s1" if "ParseBinOpRHS n p1 L1 s0 = Some (r, s1)" for p1 L1
      using f rhs [OF that] by (rule parse_frame_trans)
    from that e f f2 show ?thesis by (auto split: option.splits)
  qed
  from 1 2 3 4 5 6 show ?case by blast
qed

lemma parse_frame_ParseExpression: "ParseExpression n s = Some (r, s1) \<Longrightarrow> parse_frame s s1"
  using parse_frame_Parse [of n] by blast

lemma parse_frame_ParseTopLevelExpr: "ParseTopLevelExpr n s = Some (r, s1) \<Longrightarrow> parse_frame s s1"
  by (auto simp: ParseTopLevelExpr_def split: option.splits dest: parse_frame_ParseExpression)

lemma parse_frame_read_ArgNames: "parse_frame s (snd (read_ArgNames ArgNames s))"
proof (induction ArgNames s rule: read_ArgNames.induct)
  case (1 ArgNames s)
  let ?s1 = "getNextToken s"
  show ?case
  proof (cases "CurTok ?s1 = tok_identifier")
    case True
    with 1 have "parse_frame ?s1 (snd (read_ArgNames (ArgNames @ [IdentifierStr ?s1]) ?s1))"
      by (simp add: Let_def)
    with parse_frame_getNextToken
    have "parse_frame s (snd (read_ArgNames (ArgNames @ [IdentifierStr ?s1]) ?s1))"
      by (rule parse_frame_trans)
    with True show ?thesis by (subst read_ArgNames.simps) (simp add: Let_def)
  next
    case False
    then show ?thesis by (subst read_ArgNames.simps) (simp add: Let_def)
  qed
qed

lemma parse_frame_ParsePrototype: "parse_frame s (snd (ParsePrototype s))"
proof -
  obtain A s2 where a: "read_ArgNames [] (getNextToken s) = (A, s2)"
    by (cases "read_ArgNames [] (getNextToken s)")
  have f2: "parse_frame s s2"
    using parse_frame_read_ArgNames [of "getNextToken s" "[]"] a
    by (auto intro: parse_frame_trans [OF parse_frame_getNextToken])
  have f3: "parse_frame s (getNextToken s2)" "parse_frame s (LogError Str s2)" for Str
    using f2 by (auto intro: pf_next pf_err)
  have f1: "parse_frame s (LogError Str (getNextToken s))" for Str
    by (rule pf_err) simp
  from a f1 f3 show ?thesis
    by (simp add: ParsePrototype_def Let_def)
qed

lemma parse_frame_ParseDefinition: "ParseDefinition n s = Some (r, s1) \<Longrightarrow> parse_frame s s1"
proof -
  assume d: "ParseDefinition n s = Some (r, s1)"
  obtain P s0 where p: "ParsePrototype (getNextToken s) = (P, s0)"
    by (cases "ParsePrototype (getNextToken s)")
  have f0: "parse_frame s s0"
    using parse_frame_ParsePrototype [of "getNextToken s"] p
    by (auto intro: parse_frame_trans [OF parse_frame_getNextToken])
  have f1: "parse_frame s s1" if "ParseExpression n s0 = Some (r1, s1)" for r1
    using f0 parse_frame_ParseExpression [OF that] by (rule parse_frame_trans)
  from d p f0 f1 show ?thesis
    by (auto simp: ParseDefinition_def split: option.splits)
qed

section \<open>What lowering a function changes\<close>

text \<open>
  \<^verbatim>\<open>FunctionAST::codegen\<close> changes the module, the scope table and the diagnostics; the
  lexer and the current token are not touched.
\<close>

definition input_position :: "state \<Rightarrow> string \<times> nat \<times> char option \<times> string \<times> dbl \<times> Token" where
  "input_position s = (stdin s, reads s, LastChar s, IdentifierStr s, NumVal s, CurTok s)"

definition fn_frame :: "state \<Rightarrow> state \<Rightarrow> bool" where
  "fn_frame s s1 \<longleftrightarrow> input_position s1 = input_position s
     \<and> BinopPrecedence s1 = BinopPrecedence s \<and> (\<exists>es. out s1 = out s @ map Error es)"

lemma fn_frame_refl: "fn_frame s s"
  unfolding fn_frame_def by (auto intro: exI [of _ "[]"])

lemma fn_frame_trans: "fn_frame s s1 \<Longrightarrow> fn_frame s1 s2 \<Longrightarrow> fn_frame s s2"
  unfolding fn_frame_def by (metis append.assoc map_append)

lemma fn_frame_cg_frame: "cg_frame s s1 \<Longrightarrow> fn_frame s s1"
  unfolding cg_frame_def fn_frame_def input_position_def
  by (elim exE conjE) (simp, blast)

lemma fn_frame_TheModule: "fn_frame s (s\<lparr>TheModule := M\<rparr>)"
  unfolding fn_frame_def input_position_def by (auto intro: exI [of _ "[]"])

lemma fn_frame_LogError: "fn_frame s (LogError Str s)"
  unfolding fn_frame_def input_position_def LogError_def by (auto intro: exI [of _ "[Str]"])

lemma fn_frame_enter_body: "fn_frame s (enter_body f s)"
  unfolding fn_frame_def input_position_def enter_body_def by (auto intro: exI [of _ "[]"])

lemma fn_frame_resolve_Function: "fn_frame s (snd (resolve_Function Proto s))"
proof (cases "getFunction (TheModule s) (getName Proto)")
  case None
  obtain Name Args where p: "Proto = PrototypeAST Name Args" by (cases Proto)
  with None show ?thesis
    by (simp add: resolve_Function_def fn_frame_TheModule split: prod.splits)
next
  case (Some p)
  then show ?thesis by (cases p) (simp add: resolve_Function_def fn_frame_refl)
qed

lemma fn_frame_FunctionAST_codegen: "fn_frame s (snd (FunctionAST_codegen fn s))"
proof -
  obtain Proto Body where fn: "fn = FunctionAST Proto Body" by (cases fn)
  obtain f s1 where r: "resolve_Function Proto s = (f, s1)" by (cases "resolve_Function Proto s")
  have f1: "fn_frame s s1" using fn_frame_resolve_Function [of s Proto] r by simp
  obtain R s2 where c: "ExprAST_codegen Body (enter_body f s1) = (R, s2)"
    by (cases "ExprAST_codegen Body (enter_body f s1)")
  have "fn_frame (enter_body f s1) s2"
    using ExprAST_codegen_frame(1) [of "enter_body f s1" Body] c by (simp add: fn_frame_cg_frame)
  with fn_frame_enter_body have "fn_frame s1 s2" by (rule fn_frame_trans)
  with f1 have f2: "fn_frame s s2" by (rule fn_frame_trans)
  have f3: "fn_frame s (s2\<lparr>TheModule := M\<rparr>)" for M
    using f2 fn_frame_TheModule by (rule fn_frame_trans)
  have f4: "fn_frame s (LogError Str s1)" for Str
    using f1 fn_frame_LogError by (rule fn_frame_trans)
  from fn r c f3 f4 show ?thesis
    by (auto simp: FunctionAST_codegen_def split: option.splits)
qed

lemma map_of_set_blocks:
  "map_of (FunctionList (set_blocks h b M)) h1 =
     (if h1 = h then map_option (\<lambda>F. F\<lparr>fn_blocks := b\<rparr>) (map_of (FunctionList M) h)
      else map_of (FunctionList M) h1)"
proof -
  have "map_of (map (\<lambda>(h1, F). if h1 = h then (h1, F\<lparr>fn_blocks := b\<rparr>) else (h1, F)) xs) h1 =
     (if h1 = h then map_option (\<lambda>F. F\<lparr>fn_blocks := b\<rparr>) (map_of xs h) else map_of xs h1)"
    for xs :: "(nat \<times> Function) list"
    by (induction xs) auto
  then show ?thesis by (simp add: set_blocks_def)
qed

text \<open>The function object that a successful \<^verbatim>\<open>FunctionAST::codegen\<close> leaves for a fresh name.\<close>

lemma FunctionAST_codegen_fresh_object:
  assumes wf: "wf_Module (TheModule s)"
    and g: "getFunction (TheModule s) Name = None"
    and c: "FunctionAST_codegen (FunctionAST (PrototypeAST Name Args) Body) s = (Some FnIR, s2)"
  shows "\<exists>RetVal. map_of (FunctionList (TheModule s2)) FnIR
           = Some \<lparr>fn_name = fst (setName_Function Name (TheModule s)),
                   fn_args = setArgNames Args [] 0, fn_blocks = EntryBlock (Some RetVal)\<rparr>"
proof -
  let ?h = "next_handle (TheModule s)"
  let ?Proto = "PrototypeAST Name Args"
  obtain s1 where r: "resolve_Function ?Proto s = (?h, s1)"
    using resolve_fresh(1) [of s ?Proto] g by (cases "resolve_Function ?Proto s") simp
  have m1: "TheModule s1 = snd (Function_Create Name Args (TheModule s))"
    using resolve_fresh(2) [of s ?Proto] g r by simp
  have em: "empty_Function (TheModule s1) ?h" unfolding m1 using wf by (rule empty_Function_fresh)
  obtain R s3 where b: "ExprAST_codegen Body (enter_body ?h s1) = (R, s3)"
    by (cases "ExprAST_codegen Body (enter_body ?h s1)")
  have "cg_frame (enter_body ?h s1) s3"
    using ExprAST_codegen_frame(1) [of "enter_body ?h s1" Body] b by simp
  then have m3: "TheModule s3 = set_blocks ?h (EntryBlock None) (TheModule s1)"
    by (simp add: TheModule_cg_frame enter_body_def)
  from c r em b obtain RetVal where R: "R = Some RetVal" and f: "FnIR = ?h"
    and s2: "s2 = s3\<lparr>TheModule := set_blocks ?h (EntryBlock (Some RetVal)) (TheModule s3)\<rparr>"
    by (auto simp: FunctionAST_codegen_def split: option.splits)
  have l: "map_of (FunctionList (TheModule s1)) ?h
      = Some \<lparr>fn_name = fst (setName_Function Name (TheModule s)),
              fn_args = setArgNames Args [] 0, fn_blocks = NoBlocks\<rparr>"
    unfolding m1 using map_of_fresh_handle [OF wf]
    by (simp add: Function_Create_def map_add_def split: prod.splits)
  have "map_of (FunctionList (TheModule s2)) FnIR
           = Some \<lparr>fn_name = fst (setName_Function Name (TheModule s)),
                   fn_args = setArgNames Args [] 0, fn_blocks = EntryBlock (Some RetVal)\<rparr>"
    unfolding s2 f by (simp add: m3 map_of_set_blocks l)
  then show ?thesis by blast
qed

lemma MainLoop_returns_at_eof: "MainLoop n s = Some s1 \<Longrightarrow> CurTok s1 = tok_eof"
proof (induction n arbitrary: s)
  case 0
  then show ?case by simp
next
  case (Suc n)
  let ?s0 = "s\<lparr>out := out s @ [Prompt]\<rparr>"
  show ?case
  proof (cases "CurTok s = tok_eof")
    case True
    with Suc.prems show ?thesis by (auto simp: Let_def)
  next
    case False
    with Suc.prems obtain s2 where "MainLoop n s2 = Some s1"
      by (auto simp: Let_def split: if_splits option.splits)
    then show ?thesis by (rule Suc.IH)
  qed
qed


section \<open>The bound is reached for no input\<close>

lemmas parse_frame_ParsePrimary = parse_frame_Parse [THEN conjunct1, rule_format]
lemmas parse_frame_ParseBinOpRHS =
  parse_frame_Parse [THEN conjunct2, THEN conjunct2, THEN conjunct2, THEN conjunct2, THEN conjunct1, rule_format]

lemma todo_parse_frame: "parse_frame s s1 \<Longrightarrow> todo s1 \<le> todo s"
  by (simp add: parse_frame_def)

lemma GetTokPrecedence_operator:
  assumes "0 \<le> p" and "\<not> fst (GetTokPrecedence s) < p"
  shows "CurTok s \<noteq> tok_eof" and "0 \<le> fst (GetTokPrecedence s)"
proof -
  from assms have "fst (GetTokPrecedence s) \<noteq> - 1" by auto
  then have "isascii (CurTok s)" by (cases "isascii (CurTok s)") (simp_all add: GetTokPrecedence_def)
  then show "CurTok s \<noteq> tok_eof" by (auto simp: isascii_def)
  from assms show "0 \<le> fst (GetTokPrecedence s)" by simp
qed

text \<open>
  A bound of three units for each token that is left, and five more, is enough for every
  function of the parser.
\<close>

lemma Parse_returns:
  "(\<forall>s. 3 * todo s + 3 \<le> n \<longrightarrow> ParsePrimary n s \<noteq> None)
   \<and> (\<forall>s. CurTok s \<noteq> tok_eof \<and> 3 * todo s + 2 \<le> n \<longrightarrow> ParseParenExpr n s \<noteq> None)
   \<and> (\<forall>s. CurTok s \<noteq> tok_eof \<and> 3 * todo s + 2 \<le> n \<longrightarrow> ParseIdentifierExpr n s \<noteq> None)
   \<and> (\<forall>s I A. 3 * todo s + 5 \<le> n \<longrightarrow> ParseArgs n I A s \<noteq> None)
   \<and> (\<forall>s p L. 0 \<le> p \<and> 3 * todo s + 1 \<le> n \<longrightarrow> ParseBinOpRHS n p L s \<noteq> None)
   \<and> (\<forall>s. 3 * todo s + 4 \<le> n \<longrightarrow> ParseExpression n s \<noteq> None)"
proof (induction n)
  case 0
  show ?case by simp
next
  case (Suc n)
  note IH = Suc.IH
  note prim = IH [THEN conjunct1, rule_format]
  note paren = IH [THEN conjunct2, THEN conjunct1, rule_format]
  note ident = IH [THEN conjunct2, THEN conjunct2, THEN conjunct1, rule_format]
  note args = IH [THEN conjunct2, THEN conjunct2, THEN conjunct2, THEN conjunct1, rule_format]
  note rhs = IH [THEN conjunct2, THEN conjunct2, THEN conjunct2, THEN conjunct2, THEN conjunct1, rule_format]
  note expr = IH [THEN conjunct2, THEN conjunct2, THEN conjunct2, THEN conjunct2, THEN conjunct2, rule_format]
  have 1: "ParsePrimary (Suc n) s \<noteq> None" if b: "3 * todo s + 3 \<le> Suc n" for s
  proof -
    have i: "ParseIdentifierExpr n s \<noteq> None" if "CurTok s = tok_identifier"
      using that b by (intro ident) simp
    have p: "ParseParenExpr n s \<noteq> None" if "CurTok s = tok_char CHR ''(''"
      using that b by (intro paren) simp
    from i p show ?thesis by simp
  qed
  have 2: "ParseParenExpr (Suc n) s \<noteq> None" if c: "CurTok s \<noteq> tok_eof" and b: "3 * todo s + 2 \<le> Suc n" for s
  proof -
    from todo_getNextToken [OF c] b have "3 * todo (getNextToken s) + 4 \<le> n" by simp
    then have "ParseExpression n (getNextToken s) \<noteq> None" by (rule expr)
    then show ?thesis by (auto split: option.splits)
  qed
  have 3: "ParseIdentifierExpr (Suc n) s \<noteq> None" if c: "CurTok s \<noteq> tok_eof" and b: "3 * todo s + 2 \<le> Suc n" for s
  proof (cases "CurTok (getNextToken s) = tok_char CHR ''(''")
    case False
    then show ?thesis by (simp add: Let_def)
  next
    case True
    then have "todo (getNextToken (getNextToken s)) < todo (getNextToken s)"
      by (intro todo_getNextToken) simp
    with todo_getNextToken [OF c] b have "3 * todo (getNextToken (getNextToken s)) + 5 \<le> n" by simp
    then have "ParseArgs n (IdentifierStr s) [] (getNextToken (getNextToken s)) \<noteq> None" by (rule args)
    with True show ?thesis by (simp add: Let_def)
  qed
  have 4: "ParseArgs (Suc n) I A s \<noteq> None" if b: "3 * todo s + 5 \<le> Suc n" for s I A
  proof -
    from b have "ParseExpression n s \<noteq> None" by (intro expr) simp
    then obtain r s1 where e: "ParseExpression n s = Some (r, s1)" by auto
    then have t1: "todo s1 \<le> todo s" by (intro todo_parse_frame parse_frame_ParseExpression)
    have a: "ParseArgs n I A1 (getNextToken s1) \<noteq> None" if "CurTok s1 = tok_char CHR '',''" for A1
    proof -
      from that have "todo (getNextToken s1) < todo s1" by (intro todo_getNextToken) simp
      with t1 b have "3 * todo (getNextToken s1) + 5 \<le> n" by simp
      then show ?thesis by (rule args)
    qed
    from e a show ?thesis by (auto split: option.splits)
  qed
  have 5: "ParseBinOpRHS (Suc n) p L s \<noteq> None" if p: "0 \<le> p" and b: "3 * todo s + 1 \<le> Suc n" for s p L
  proof -
    obtain TokPrec sa where g: "GetTokPrecedence s = (TokPrec, sa)" by (cases "GetTokPrecedence s")
    show ?thesis
    proof (cases "TokPrec < p")
      case True
      with g show ?thesis by simp
    next
      case False
      with g p have c: "CurTok s \<noteq> tok_eof" and tp: "0 \<le> TokPrec"
        using GetTokPrecedence_operator [of p s] by simp_all
      from g GetTokPrecedence_input [of s] have sa: "todo sa = todo s" "CurTok sa = CurTok s" by simp_all
      with c have lt: "todo (getNextToken sa) < todo s"
        using todo_getNextToken [of sa] by simp
      with b have "3 * todo (getNextToken sa) + 3 \<le> n" by simp
      then have "ParsePrimary n (getNextToken sa) \<noteq> None" by (rule prim)
      then obtain r0 s0 where e: "ParsePrimary n (getNextToken sa) = Some (r0, s0)" by auto
      then have t0: "todo s0 \<le> todo (getNextToken sa)"
        by (intro todo_parse_frame parse_frame_ParsePrimary)
      show ?thesis
      proof (cases r0)
        case None
        with g False e show ?thesis by (simp add: Let_def)
      next
        case (Some RHS)
        obtain NextPrec sb where g2: "GetTokPrecedence s0 = (NextPrec, sb)" by (cases "GetTokPrecedence s0")
        with GetTokPrecedence_input [of s0] have sb: "todo sb = todo s0" by simp
        with t0 lt b have bb: "3 * todo sb + 1 \<le> n" by simp
        have r1: "ParseBinOpRHS n p1 L1 sb \<noteq> None" if "0 \<le> p1" for p1 L1
          using that bb by (intro rhs) simp
        have r2: "ParseBinOpRHS n p L1 sc \<noteq> None"
          if "ParseBinOpRHS n p1 L2 sb = Some (r1, sc)" for p1 L1 L2 r1 sc
        proof -
          from that have "todo sc \<le> todo sb" by (intro todo_parse_frame parse_frame_ParseBinOpRHS)
          with bb p show ?thesis by (intro rhs) simp
        qed
        show ?thesis
        proof (cases "TokPrec < NextPrec")
          case lt: True
          from tp have "ParseBinOpRHS n (TokPrec + 1) RHS sb \<noteq> None" by (intro r1) simp
          then obtain r1 sc where e1: "ParseBinOpRHS n (TokPrec + 1) RHS sb = Some (r1, sc)" by auto
          with g False e Some g2 lt r2 [OF e1] show ?thesis
            by (cases r1) (simp_all add: Let_def)
        next
          case ge: False
          with g False e Some g2 r1 [OF p] show ?thesis by (simp add: Let_def)
        qed
      qed
    qed
  qed
  have 6: "ParseExpression (Suc n) s \<noteq> None" if b: "3 * todo s + 4 \<le> Suc n" for s
  proof -
    from b have "ParsePrimary n s \<noteq> None" by (intro prim) simp
    then obtain r s1 where e: "ParsePrimary n s = Some (r, s1)" by auto
    then have "todo s1 \<le> todo s" by (intro todo_parse_frame parse_frame_ParsePrimary)
    with b have "ParseBinOpRHS n 0 L s1 \<noteq> None" for L by (intro rhs) simp
    with e show ?thesis by (cases r) simp_all
  qed
  from 1 2 3 4 5 6 show ?case by blast
qed

lemmas ParseExpression_returns =
  Parse_returns [THEN conjunct2, THEN conjunct2, THEN conjunct2, THEN conjunct2, THEN conjunct2, rule_format]


lemmas parse_frame_ParseParenExpr = parse_frame_Parse [THEN conjunct2, THEN conjunct1, rule_format]
lemmas parse_frame_ParseIdentifierExpr =
  parse_frame_Parse [THEN conjunct2, THEN conjunct2, THEN conjunct1, rule_format]
lemmas parse_frame_ParseArgs =
  parse_frame_Parse [THEN conjunct2, THEN conjunct2, THEN conjunct2, THEN conjunct1, rule_format]

text \<open>
  A primary expression that is parsed takes at least one token; a failure that takes
  none leaves the current token in place.
\<close>

lemma ParsePrimary_progress:
  assumes "ParsePrimary n s = Some (r, s1)" and c: "CurTok s \<noteq> tok_eof"
  shows "todo s1 < todo s \<or> (r = None \<and> CurTok s1 = CurTok s \<and> todo s1 = todo s)"
proof (cases n)
  case 0
  with assms show ?thesis by simp
next
  case (Suc k)
  note lt = todo_getNextToken [OF c]
  consider (ident) "CurTok s = tok_identifier"
    | (num) "CurTok s \<noteq> tok_identifier" "CurTok s = tok_number"
    | (paren) "CurTok s \<noteq> tok_identifier" "CurTok s \<noteq> tok_number" "CurTok s = tok_char CHR ''(''"
    | (other) "CurTok s \<noteq> tok_identifier" "CurTok s \<noteq> tok_number" "CurTok s \<noteq> tok_char CHR ''(''"
    by blast
  then show ?thesis
  proof cases
    case ident
    with assms Suc have i: "ParseIdentifierExpr k s = Some (r, s1)" by simp
    show ?thesis
    proof (cases k)
      case 0
      with i show ?thesis by simp
    next
      case j: (Suc j)
      let ?s1 = "getNextToken s"
      let ?s2 = "getNextToken ?s1"
      have a: "todo s1 \<le> todo ?s2" if "ParseArgs j I A ?s2 = Some (r, s1)" for I A
        using that by (intro todo_parse_frame parse_frame_ParseArgs)
      from i j have "s1 = ?s1 \<or> ParseArgs j (IdentifierStr s) [] ?s2 = Some (r, s1)
          \<or> s1 = getNextToken ?s2"
        by (simp add: Let_def split: if_splits)
      then have "todo s1 \<le> todo ?s2 \<or> s1 = ?s1"
        using a [of "IdentifierStr s" "[]"] todo_getNextToken_le [of ?s2] by blast
      with todo_getNextToken_le [of ?s1] have "todo s1 \<le> todo ?s1" by auto
      with lt show ?thesis by simp
    qed
  next
    case num
    with assms Suc lt show ?thesis by (simp add: ParseNumberExpr_def)
  next
    case paren
    with assms Suc have p: "ParseParenExpr k s = Some (r, s1)" by simp
    show ?thesis
    proof (cases k)
      case 0
      with p show ?thesis by simp
    next
      case j: (Suc j)
      from p j obtain r0 s0 where e: "ParseExpression j (getNextToken s) = Some (r0, s0)"
        by (auto split: option.splits)
      then have t0: "todo s0 \<le> todo (getNextToken s)"
        by (intro todo_parse_frame parse_frame_ParseExpression)
      from p j e have "s1 = s0 \<or> s1 = LogError ''expected )'' s0 \<or> s1 = getNextToken s0"
        by (auto split: option.splits if_splits)
      with todo_getNextToken_le [of s0] have "todo s1 \<le> todo s0" by auto
      with t0 lt show ?thesis by simp
    qed
  next
    case other
    with assms Suc have "r = None" "s1 = LogError ''unknown tokenw hen expecting an exp'' s" by simp_all
    moreover have "CurTok (LogError Str s) = CurTok s" for Str by (simp add: LogError_def)
    ultimately show ?thesis by simp
  qed
qed

lemma ParseExpression_progress:
  assumes "ParseExpression n s = Some (r, s1)" and c: "CurTok s \<noteq> tok_eof"
  shows "todo s1 < todo s \<or> (r = None \<and> CurTok s1 \<noteq> tok_eof \<and> todo s1 \<le> todo s)"
proof (cases n)
  case 0
  with assms show ?thesis by simp
next
  case (Suc k)
  with assms obtain r0 s0 where e: "ParsePrimary k s = Some (r0, s0)"
    by (auto split: option.splits)
  note p = ParsePrimary_progress [OF e c]
  show ?thesis
  proof (cases r0)
    case None
    with assms Suc e have "r = None" "s1 = s0" by simp_all
    with p c show ?thesis by auto
  next
    case (Some LHS)
    with assms Suc e have "ParseBinOpRHS k 0 LHS s0 = Some (r, s1)" by simp
    then have "todo s1 \<le> todo s0" by (intro todo_parse_frame parse_frame_ParseBinOpRHS)
    with p Some show ?thesis by auto
  qed
qed

lemma todo_input_position: "input_position s1 = input_position s \<Longrightarrow> todo s1 = todo s"
proof -
  assume "input_position s1 = input_position s"
  then have "stdin s1 = stdin s \<and> LastChar s1 = LastChar s \<and> CurTok s1 = CurTok s"
    unfolding input_position_def by (elim Pair_inject) blast
  then show ?thesis unfolding todo_def pending_def by (elim conjE) (simp only:)
qed

lemma todo_FunctionAST_codegen: "todo (snd (FunctionAST_codegen fn s)) = todo s"
proof (rule todo_input_position)
  show "input_position (snd (FunctionAST_codegen fn s)) = input_position s"
    using fn_frame_FunctionAST_codegen [of s fn] unfolding fn_frame_def by (elim conjE)
qed

lemma todo_frame [simp]:
  "todo (s\<lparr>TheModule := M\<rparr>) = todo s"
  "todo (s\<lparr>out := es\<rparr>) = todo s"
  "todo (report line FnIR s) = todo s"
  by (simp_all add: todo_def pending_def report_def)

lemma HandleTopLevelExpression_progress:
  assumes c: "CurTok s \<noteq> tok_eof" and b: "3 * todo s + 4 \<le> n"
  shows "\<exists>s1. HandleTopLevelExpression n s = Some s1 \<and> todo s1 < todo s"
proof -
  from b have "ParseExpression n s \<noteq> None" by (rule ParseExpression_returns)
  then obtain r s0 where e: "ParseExpression n s = Some (r, s0)" by auto
  note p = ParseExpression_progress [OF e c]
  show ?thesis
  proof (cases r)
    case None
    with e have h: "HandleTopLevelExpression n s = Some (getNextToken s0)"
      by (simp add: HandleTopLevelExpression_def ParseTopLevelExpr_def)
    from p None todo_getNextToken_le [of s0] todo_getNextToken [of s0]
    have "todo (getNextToken s0) < todo s" by auto
    with h show ?thesis by simp
  next
    case (Some E)
    let ?fn = "FunctionAST (PrototypeAST [] []) E"
    from p Some have lt: "todo s0 < todo s" by simp
    obtain R s2 where g: "FunctionAST_codegen ?fn s0 = (R, s2)"
      by (cases "FunctionAST_codegen ?fn s0")
    with todo_FunctionAST_codegen [of ?fn s0] have t2: "todo s2 = todo s0" by simp
    from e Some g have "\<exists>s1. HandleTopLevelExpression n s = Some s1 \<and> todo s1 = todo s2"
      by (cases R) (simp_all add: HandleTopLevelExpression_def ParseTopLevelExpr_def Let_def)
    with t2 lt show ?thesis by auto
  qed
qed

lemma HandleDefinition_progress:
  assumes c: "CurTok s \<noteq> tok_eof" and b: "3 * todo s + 1 \<le> n"
  shows "\<exists>s1. HandleDefinition n s = Some s1 \<and> todo s1 < todo s"
proof -
  note lt = todo_getNextToken [OF c]
  obtain P s0 where pp: "ParsePrototype (getNextToken s) = (P, s0)"
    by (cases "ParsePrototype (getNextToken s)")
  with parse_frame_ParsePrototype [of "getNextToken s"] have "todo s0 \<le> todo (getNextToken s)"
    by (simp add: todo_parse_frame)
  with lt have t0: "todo s0 < todo s" by simp
  show ?thesis
  proof (cases P)
    case None
    with pp have "HandleDefinition n s = Some (getNextToken s0)"
      by (simp add: HandleDefinition_def ParseDefinition_def)
    with t0 todo_getNextToken_le [of s0] show ?thesis by simp
  next
    case (Some Proto)
    from t0 b have "ParseExpression n s0 \<noteq> None" by (intro ParseExpression_returns) simp
    then obtain r s1 where e: "ParseExpression n s0 = Some (r, s1)" by auto
    then have t1: "todo s1 \<le> todo s0" by (intro todo_parse_frame parse_frame_ParseExpression)
    show ?thesis
    proof (cases r)
      case None
      with pp Some e have "HandleDefinition n s = Some (getNextToken s1)"
        by (simp add: HandleDefinition_def ParseDefinition_def)
      with t0 t1 todo_getNextToken_le [of s1] show ?thesis by simp
    next
      case E: (Some E)
      let ?fn = "FunctionAST Proto E"
      obtain R s2 where g: "FunctionAST_codegen ?fn s1 = (R, s2)"
        by (cases "FunctionAST_codegen ?fn s1")
      with todo_FunctionAST_codegen [of ?fn s1] have t2: "todo s2 = todo s1" by simp
      from pp Some e E g have "\<exists>s3. HandleDefinition n s = Some s3 \<and> todo s3 = todo s2"
        by (cases R) (simp_all add: HandleDefinition_def ParseDefinition_def)
      with t0 t1 t2 show ?thesis by auto
    qed
  qed
qed

lemma HandleExtern_progress:
  assumes c: "CurTok s \<noteq> tok_eof"
  shows "todo (HandleExtern s) < todo s"
proof -
  note lt = todo_getNextToken [OF c]
  obtain P s0 where pp: "ParsePrototype (getNextToken s) = (P, s0)"
    by (cases "ParsePrototype (getNextToken s)")
  with parse_frame_ParsePrototype [of "getNextToken s"] have "todo s0 \<le> todo (getNextToken s)"
    by (simp add: todo_parse_frame)
  with lt have t0: "todo s0 < todo s" by simp
  show ?thesis
  proof (cases P)
    case None
    with pp t0 todo_getNextToken_le [of s0] show ?thesis
      by (simp add: HandleExtern_def ParseExtern_def)
  next
    case (Some Proto)
    obtain Name Args where p: "Proto = PrototypeAST Name Args" by (cases Proto)
    with pp Some t0 show ?thesis
      by (simp add: HandleExtern_def ParseExtern_def split: prod.splits)
  qed
qed

lemma MainLoop_returns: "3 * todo s + 5 \<le> n \<Longrightarrow> MainLoop n s \<noteq> None"
proof (induction n arbitrary: s)
  case 0
  then show ?case by simp
next
  case (Suc n)
  let ?s0 = "s\<lparr>out := out s @ [Prompt]\<rparr>"
  have t0: "todo ?s0 = todo s" and c0: "CurTok ?s0 = CurTok s" by simp_all
  have next_round: "MainLoop n s1 \<noteq> None" if "todo s1 < todo s" for s1
    using that Suc.prems by (intro Suc.IH) simp
  show ?case
  proof (cases "CurTok s = tok_eof")
    case True
    then show ?thesis by (simp add: Let_def)
  next
    case False
    then have c: "CurTok ?s0 \<noteq> tok_eof" by simp
    have semi: "MainLoop n (getNextToken ?s0) \<noteq> None"
      using todo_getNextToken [OF c] by (intro next_round) simp
    have ext: "MainLoop n (HandleExtern ?s0) \<noteq> None"
      using HandleExtern_progress [OF c] by (intro next_round) simp
    from Suc.prems have "3 * todo ?s0 + 1 \<le> n" by simp
    from HandleDefinition_progress [OF c this]
    obtain s1 where d: "HandleDefinition n ?s0 = Some s1" "todo s1 < todo s" by auto
    from Suc.prems have "3 * todo ?s0 + 4 \<le> n" by simp
    from HandleTopLevelExpression_progress [OF c this]
    obtain s2 where e: "HandleTopLevelExpression n ?s0 = Some s2" "todo s2 < todo s" by auto
    from False semi ext d e next_round [of s1] next_round [of s2] show ?thesis
      by (simp add: Let_def)
  qed
qed

lemma todo_main_setup: "todo (main_setup input) \<le> length input + 1"
proof -
  let ?s1 = "install_operators (startup input)"
  let ?s2 = "?s1\<lparr>out := out ?s1 @ [Prompt]\<rparr>"
  have "todo ?s2 = length input + 2" "CurTok ?s2 \<noteq> tok_eof"
    by (simp_all add: todo_def pending_def install_operators_def startup_def)
  with todo_getNextToken [of ?s2] have "todo (getNextToken ?s2) \<le> length input + 1" by simp
  then show ?thesis
    by (simp add: main_setup_def Let_def InitializeModuleAndManagers_def)
qed

lemma main_returns: "3 * length input + 8 \<le> n \<Longrightarrow> \<exists>s. main n input = Some s \<and> CurTok s = tok_eof"
proof -
  assume "3 * length input + 8 \<le> n"
  with todo_main_setup [of input] have "3 * todo (main_setup input) + 5 \<le> n" by simp
  then have "MainLoop n (main_setup input) \<noteq> None" by (rule MainLoop_returns)
  then obtain s where "main n input = Some s" by (auto simp: main_def)
  moreover from this have "CurTok s = tok_eof"
    unfolding main_def by (rule MainLoop_returns_at_eof)
  ultimately show ?thesis by blast
qed


section \<open>The bound does not change a result\<close>

lemmas Parse_simps_0 =
  ParsePrimary.simps(1) ParseParenExpr.simps(1) ParseIdentifierExpr.simps(1)
  ParseArgs.simps(1) ParseBinOpRHS.simps(1) ParseExpression.simps(1)

lemmas Parse_simps_Suc =
  ParsePrimary.simps(2) ParseParenExpr.simps(2) ParseIdentifierExpr.simps(2)
  ParseArgs.simps(2) ParseBinOpRHS.simps(2) ParseExpression.simps(2)

lemma Parse_mono_step:
  "(\<forall>s r. ParsePrimary n s = Some r \<longrightarrow> ParsePrimary (Suc n) s = Some r)
   \<and> (\<forall>s r. ParseParenExpr n s = Some r \<longrightarrow> ParseParenExpr (Suc n) s = Some r)
   \<and> (\<forall>s r. ParseIdentifierExpr n s = Some r \<longrightarrow> ParseIdentifierExpr (Suc n) s = Some r)
   \<and> (\<forall>s r I A. ParseArgs n I A s = Some r \<longrightarrow> ParseArgs (Suc n) I A s = Some r)
   \<and> (\<forall>s r p L. ParseBinOpRHS n p L s = Some r \<longrightarrow> ParseBinOpRHS (Suc n) p L s = Some r)
   \<and> (\<forall>s r. ParseExpression n s = Some r \<longrightarrow> ParseExpression (Suc n) s = Some r)"
proof (induction n)
  case 0
  show ?case by simp
next
  case (Suc n)
  note IH = Suc.IH
  note prim = IH [THEN conjunct1, rule_format]
  note paren = IH [THEN conjunct2, THEN conjunct1, rule_format]
  note ident = IH [THEN conjunct2, THEN conjunct2, THEN conjunct1, rule_format]
  note args = IH [THEN conjunct2, THEN conjunct2, THEN conjunct2, THEN conjunct1, rule_format]
  note rhs = IH [THEN conjunct2, THEN conjunct2, THEN conjunct2, THEN conjunct2, THEN conjunct1, rule_format]
  note expr = IH [THEN conjunct2, THEN conjunct2, THEN conjunct2, THEN conjunct2, THEN conjunct2, rule_format]
  have 1: "ParsePrimary (Suc (Suc n)) s = Some r" if "ParsePrimary (Suc n) s = Some r" for s r
    using that
    apply (subst ParsePrimary.simps(2))
    apply (subst (asm) ParsePrimary.simps(2))
    apply (auto simp del: Parse_simps_Suc split: if_splits dest: ident paren)
    done
  have 2: "ParseParenExpr (Suc (Suc n)) s = Some r" if "ParseParenExpr (Suc n) s = Some r" for s r
    using that
    apply (subst ParseParenExpr.simps(2))
    apply (subst (asm) ParseParenExpr.simps(2))
    apply (auto simp del: Parse_simps_Suc split: if_splits option.splits dest: expr)
    done
  have 3: "ParseIdentifierExpr (Suc (Suc n)) s = Some r" if "ParseIdentifierExpr (Suc n) s = Some r" for s r
    using that
    apply (subst ParseIdentifierExpr.simps(2))
    apply (subst (asm) ParseIdentifierExpr.simps(2))
    apply (auto simp del: Parse_simps_Suc simp: Let_def split: if_splits dest: args)
    done
  have 4: "ParseArgs (Suc (Suc n)) I A s = Some r" if "ParseArgs (Suc n) I A s = Some r" for s r I A
    using that
    apply (subst (asm) ParseArgs.simps(2))
    apply (auto simp del: Parse_simps_Suc split: if_splits option.splits dest!: expr args)
    apply (subst ParseArgs.simps(2), simp del: Parse_simps_Suc add: Let_def)+
    done
  have 5: "ParseBinOpRHS (Suc (Suc n)) p L s = Some r" if "ParseBinOpRHS (Suc n) p L s = Some r" for s r p L
    using that
    apply (subst (asm) ParseBinOpRHS.simps(2))
    apply (auto simp del: Parse_simps_Suc simp: Let_def split: if_splits option.splits prod.splits
        dest!: prim rhs)
    apply (subst ParseBinOpRHS.simps(2), simp del: Parse_simps_Suc add: Let_def)+
    done
  have 6: "ParseExpression (Suc (Suc n)) s = Some r" if "ParseExpression (Suc n) s = Some r" for s r
    using that
    apply (subst (asm) ParseExpression.simps(2))
    apply (auto simp del: Parse_simps_Suc split: if_splits option.splits dest!: prim rhs)
    apply (subst ParseExpression.simps(2), simp del: Parse_simps_Suc add: Let_def)+
    done
  from 1 2 3 4 5 6 show ?case by blast
qed

lemma ParsePrimary_mono:
  assumes "n \<le> m" and "ParsePrimary n s = Some r"
  shows "ParsePrimary m s = Some r"
  using assms
proof (induction rule: dec_induct)
  case base
  then show ?case .
next
  case (step k)
  then show ?case using Parse_mono_step [of k] by blast
qed

lemma ParseExpression_mono:
  assumes "n \<le> m" and "ParseExpression n s = Some r"
  shows "ParseExpression m s = Some r"
  using assms
proof (induction rule: dec_induct)
  case base
  then show ?case .
next
  case (step k)
  then show ?case using Parse_mono_step [of k] by blast
qed


section \<open>The grouping of operators\<close>

text \<open>
  What the specification says of an expression without regard to the parser: the
  expression is a first operand followed by operators, each with its precedence and
  its right operand, and its grouping is a tree over the operands. An operand is
  whatever \<^verbatim>\<open>ParsePrimary\<close> reads: a number, a variable, a call, or an expression in
  parentheses.
\<close>

datatype grouping = Operand ExprAST | Grouped char int grouping grouping

fun ast_of :: "grouping \<Rightarrow> ExprAST" where
  "ast_of (Operand e) = e"
| "ast_of (Grouped c q l r) = BinaryExprAST c (ast_of l) (ast_of r)"

fun first_operand :: "grouping \<Rightarrow> ExprAST" where
  "first_operand (Operand e) = e"
| "first_operand (Grouped c q l r) = first_operand l"

fun operators :: "grouping \<Rightarrow> (char \<times> int \<times> ExprAST) list" where
  "operators (Operand e) = []"
| "operators (Grouped c q l r) = operators l @ (c, q, first_operand r) # operators r"

text \<open>\<open>binds q t\<close>: \<open>t\<close> is an operand, or an operation of precedence \<open>q\<close> at least.\<close>

fun binds :: "int \<Rightarrow> grouping \<Rightarrow> bool" where
  "binds q (Operand e) = True"
| "binds q (Grouped c q1 l r) = (q \<le> q1)"

text \<open>
  Operators of equal precedence group to the left, and an operator of higher precedence
  binds tighter: an operation of precedence \<open>q\<close> has on its left an operand or an
  operation of precedence \<open>q\<close> at least, and on its right an operand or an operation of
  higher precedence.
\<close>

fun grouped :: "grouping \<Rightarrow> bool" where
  "grouped (Operand e) = True"
| "grouped (Grouped c q l r) = (grouped l \<and> grouped r \<and> binds q l \<and> binds (q + 1) r)"

text \<open>
  The operators that follow in the input, read without grouping them: as long as the
  current token is a binary operator, the operator, its precedence and the operand
  after it. The first bound is the number of rounds, the second the bound of
  \<open>ParsePrimary\<close>.
\<close>

fun read_operators :: "nat \<Rightarrow> nat \<Rightarrow> state \<Rightarrow> ((char \<times> int \<times> ExprAST) list \<times> state) option" where
  "read_operators 0 n s = None"
| "read_operators (Suc k) n s =
     (case GetTokPrecedence s of (TokPrec, s1) \<Rightarrow>
        if TokPrec < 0 then Some ([], s1)
        else (case ParsePrimary n (getNextToken s1) of
                Some (Some RHS, s2) \<Rightarrow>
                  (case read_operators k n s2 of
                     Some (ops, e) \<Rightarrow> Some ((tok_to_char (CurTok s1), TokPrec, RHS) # ops, e)
                   | None \<Rightarrow> None)
              | _ \<Rightarrow> None))"

text \<open>The two properties determine the grouping.\<close>

lemma operators_at_least:
  "grouped t \<Longrightarrow> binds q t \<Longrightarrow> (c1, q1, x) \<in> set (operators t) \<Longrightarrow> q \<le> q1"
proof (induction t arbitrary: q)
  case (Operand e)
  then show ?case by simp
next
  case (Grouped c q0 l r)
  from Grouped.prems(1) have g: "grouped l" "grouped r" "binds q0 l" "binds (q0 + 1) r" by simp_all
  from Grouped.prems(2) have q: "q \<le> q0" by simp
  from Grouped.prems(3) consider "(c1, q1, x) \<in> set (operators l)" | "q1 = q0"
    | "(c1, q1, x) \<in> set (operators r)" by auto
  then show ?case
  proof cases
    case 1
    with Grouped.IH(1) [OF g(1) g(3)] q show ?thesis by simp
  next
    case 2
    with q show ?thesis by simp
  next
    case 3
    with Grouped.IH(2) [OF g(2) g(4)] q show ?thesis by simp
  qed
qed

lemma operators_Nil: "operators t = [] \<longleftrightarrow> (\<exists>e. t = Operand e)"
  by (cases t) simp_all

lemma grouping_unique:
  "grouped t \<Longrightarrow> grouped t1 \<Longrightarrow> first_operand t = first_operand t1
   \<Longrightarrow> operators t = operators t1 \<Longrightarrow> t = t1"
proof (induction t arbitrary: t1)
  case (Operand e)
  from Operand.prems(4) have "operators t1 = []" by simp
  then obtain e1 where "t1 = Operand e1" unfolding operators_Nil by blast
  with Operand.prems(3) show ?case by simp
next
  case (Grouped c q l r)
  from Grouped.prems(4) have "operators t1 \<noteq> []" by auto
  then obtain c1 q1 l1 r1 where t1: "t1 = Grouped c1 q1 l1 r1"
    by (cases t1) simp_all
  from Grouped.prems(1) have g: "grouped l" "grouped r" "binds q l" "binds (q + 1) r" by simp_all
  from Grouped.prems(2) t1 have g1: "grouped l1" "grouped r1" "binds q1 l1" "binds (q1 + 1) r1"
    by simp_all
  from Grouped.prems(4) t1
  have eq: "operators l @ (c, q, first_operand r) # operators r
      = operators l1 @ (c1, q1, first_operand r1) # operators r1" by simp
  then obtain us where
    "operators l = operators l1 @ us \<and> us @ (c, q, first_operand r) # operators r
        = (c1, q1, first_operand r1) # operators r1
     \<or> operators l @ us = operators l1 \<and> (c, q, first_operand r) # operators r
        = us @ (c1, q1, first_operand r1) # operators r1"
    unfolding append_eq_append_conv2 by blast
  then have us: "us = []"
  proof
    assume a: "operators l = operators l1 @ us \<and> us @ (c, q, first_operand r) # operators r
        = (c1, q1, first_operand r1) # operators r1"
    show ?thesis
    proof (cases us)
      case Nil
      then show ?thesis .
    next
      case (Cons u us1)
      with a have u: "u = (c1, q1, first_operand r1)"
        and r1: "us1 @ (c, q, first_operand r) # operators r = operators r1" by simp_all
      from a Cons u have "(c1, q1, first_operand r1) \<in> set (operators l)" by simp
      with operators_at_least [OF g(1) g(3)] have "q \<le> q1" by blast
      moreover from r1 [symmetric] have "(c, q, first_operand r) \<in> set (operators r1)" by simp
      with operators_at_least [OF g1(2) g1(4)] have "q1 + 1 \<le> q" by blast
      ultimately show ?thesis by simp
    qed
  next
    assume a: "operators l @ us = operators l1 \<and> (c, q, first_operand r) # operators r
        = us @ (c1, q1, first_operand r1) # operators r1"
    show ?thesis
    proof (cases us)
      case Nil
      then show ?thesis .
    next
      case (Cons u us1)
      with a have u: "u = (c, q, first_operand r)"
        and r: "operators r = us1 @ (c1, q1, first_operand r1) # operators r1" by simp_all
      from a Cons u have "operators l1 = operators l @ (c, q, first_operand r) # us1" by simp
      then have "(c, q, first_operand r) \<in> set (operators l1)" by simp
      with operators_at_least [OF g1(1) g1(3)] have "q1 \<le> q" by blast
      moreover from r have "(c1, q1, first_operand r1) \<in> set (operators r)" by simp
      with operators_at_least [OF g(2) g(4)] have "q + 1 \<le> q1" by blast
      ultimately show ?thesis by simp
    qed
  qed
  have len: "length (operators l) = length (operators l1)"
    using \<open>operators l = operators l1 @ us \<and> _ \<or> operators l @ us = operators l1 \<and> _\<close> us by auto
  with eq have parts: "operators l = operators l1" "c = c1" "q = q1"
    "first_operand r = first_operand r1" "operators r = operators r1"
    by simp_all
  from Grouped.prems(3) t1 have "first_operand l = first_operand l1" by simp
  with Grouped.IH(1) [OF g(1) g1(1)] parts(1) have "l = l1" by simp
  moreover from Grouped.IH(2) [OF g(2) g1(2)] parts(4,5) have "r = r1" by simp
  ultimately show ?case using t1 parts by simp
qed

text \<open>The precedence of a token is read without a change of the state when it is an operator,
  and reading it again changes nothing.\<close>

lemma GetTokPrecedence_operator_state:
  "GetTokPrecedence s = (q, s1) \<Longrightarrow> 0 \<le> q \<Longrightarrow> s1 = s"
  by (auto simp: GetTokPrecedence_def split: if_splits option.splits)

lemma GetTokPrecedence_again:
  "GetTokPrecedence s = (q, s1) \<Longrightarrow> GetTokPrecedence s1 = (q, s1)"
  by (auto simp: GetTokPrecedence_def split: if_splits option.splits)

lemma read_operators_again:
  assumes "GetTokPrecedence s = (q, s1)"
  shows "read_operators k n s1 = read_operators k n s"
proof (cases k)
  case 0
  then show ?thesis by simp
next
  case (Suc k0)
  with assms GetTokPrecedence_again [OF assms] show ?thesis by simp
qed

lemma read_operators_Nil:
  assumes "read_operators k n s = Some ([], e)"
  shows "e = snd (GetTokPrecedence s)" and "fst (GetTokPrecedence s) < 0"
proof -
  from assms obtain k0 where k: "k = Suc k0" by (cases k) simp_all
  obtain q s1 where g: "GetTokPrecedence s = (q, s1)" by (cases "GetTokPrecedence s")
  from assms k g show "e = snd (GetTokPrecedence s)" and "fst (GetTokPrecedence s) < 0"
    by (auto split: if_splits option.splits)
qed

lemma read_operators_Cons:
  assumes "read_operators k n s = Some (op # rest, e)"
  shows "\<exists>k0 R s2. k = Suc k0 \<and> 0 \<le> fst (GetTokPrecedence s)
           \<and> op = (tok_to_char (CurTok s), fst (GetTokPrecedence s), R)
           \<and> ParsePrimary n (getNextToken s) = Some (Some R, s2)
           \<and> read_operators k0 n s2 = Some (rest, e)"
proof -
  from assms obtain k0 where k: "k = Suc k0" by (cases k) simp_all
  obtain q s1 where g: "GetTokPrecedence s = (q, s1)" by (cases "GetTokPrecedence s")
  from assms k g have q: "0 \<le> q" by (auto split: if_splits)
  with g have s1: "s1 = s" by (rule GetTokPrecedence_operator_state)
  from assms k g q s1 show ?thesis
    by (auto split: option.splits)
qed

lemma read_operators_precedence:
  "read_operators k n s = Some (ops, e) \<Longrightarrow> (c, q, x) \<in> set ops \<Longrightarrow> 0 \<le> q"
proof (induction k arbitrary: s ops)
  case 0
  then show ?case by simp
next
  case (Suc k)
  show ?case
  proof (cases ops)
    case Nil
    with Suc.prems(2) show ?thesis by simp
  next
    case (Cons op rest)
    with Suc.prems(1) read_operators_Cons [of "Suc k" n s op rest e]
    obtain R s2 where op: "op = (tok_to_char (CurTok s), fst (GetTokPrecedence s), R)"
      and q: "0 \<le> fst (GetTokPrecedence s)"
      and r: "read_operators k n s2 = Some (rest, e)" by auto
    from Suc.prems(2) Cons consider "(c, q, x) = op" | "(c, q, x) \<in> set rest" by auto
    then show ?thesis
    proof cases
      case 1
      with op q show ?thesis by simp
    next
      case 2
      with Suc.IH [OF r] show ?thesis .
    qed
  qed
qed

text \<open>
  \<^verbatim>\<open>ParseBinOpRHS\<close> on the operators that follow: it takes a first part of them, up to the
  first operator of a precedence below \<open>ExprPrec\<close> that is left over by the operations
  before it, and returns the grouping of the left operand with that part.
\<close>

lemma ParseBinOpRHS_grouping:
  assumes "read_operators k n s = Some (ops, e)" and "grouped L" and "0 \<le> p"
    and "ops \<noteq> [] \<longrightarrow> binds (fst (snd (hd ops))) L"
    and "n + length ops < m"
  shows "\<exists>T ops1 ops2 s' k'.
           ParseBinOpRHS m p (ast_of L) s = Some (Some (ast_of T), s')
           \<and> ops = ops1 @ ops2 \<and> read_operators k' n s' = Some (ops2, e)
           \<and> snd (GetTokPrecedence s') = s'
           \<and> first_operand T = first_operand L \<and> operators T = operators L @ ops1
           \<and> grouped T \<and> (T = L \<or> binds p T)
           \<and> (ops2 \<noteq> [] \<longrightarrow> fst (snd (hd ops2)) < p)"
  using assms
proof (induction m arbitrary: k s ops L p)
  case 0
  then show ?case by simp
next
  case (Suc m)
  note rd = Suc.prems(1) and gL = Suc.prems(2) and p0 = Suc.prems(3)
    and hd = Suc.prems(4) and fuel = Suc.prems(5)
  obtain q s1 where g: "GetTokPrecedence s = (q, s1)" by (cases "GetTokPrecedence s")
  show ?case
  proof (cases ops)
    case Nil
    with rd read_operators_Nil [of k n s e] g have e: "e = s1" and q: "q < 0" by simp_all
    from g have g1: "GetTokPrecedence s1 = (q, s1)" by (rule GetTokPrecedence_again)
    from q p0 have "q < p" by simp
    with g have r: "ParseBinOpRHS (Suc m) p (ast_of L) s = Some (Some (ast_of L), s1)" by simp
    from g1 q e have ro: "read_operators (Suc 0) n s1 = Some ([], e)" by simp
    from g1 have st: "snd (GetTokPrecedence s1) = s1" by simp
    from Nil have sp: "ops = [] @ []" by simp
    have os: "operators L = operators L @ []" by simp
    have lo: "[] \<noteq> [] \<longrightarrow> fst (snd (hd ([] :: (char \<times> int \<times> ExprAST) list))) < p" by simp
    from r sp ro st os gL lo show ?thesis by blast
  next
    case (Cons op rest)
    from rd Cons read_operators_Cons [of k n s op rest e]
    obtain k0 R s2 where k: "k = Suc k0" and q0: "0 \<le> fst (GetTokPrecedence s)"
      and op0: "op = (tok_to_char (CurTok s), fst (GetTokPrecedence s), R)"
      and pp: "ParsePrimary n (getNextToken s) = Some (Some R, s2)"
      and rr: "read_operators k0 n s2 = Some (rest, e)" by blast
    from g q0 have q: "0 \<le> q" by simp
    with g have s1: "s1 = s" by (rule GetTokPrecedence_operator_state)
    from op0 g have op: "op = (tok_to_char (CurTok s), q, R)" by simp
    from hd Cons op have bL: "binds q L" by simp
    show ?thesis
    proof (cases "q < p")
      case True
      with g s1 have r: "ParseBinOpRHS (Suc m) p (ast_of L) s = Some (Some (ast_of L), s)" by simp
      have sp: "ops = [] @ ops" by simp
      from g s1 have st: "snd (GetTokPrecedence s) = s" by simp
      have os: "operators L = operators L @ []" by simp
      from True Cons op have lo: "ops \<noteq> [] \<longrightarrow> fst (snd (hd ops)) < p" by simp
      from r sp rd st os gL lo show ?thesis by blast
    next
      case False
      from fuel Cons have nm: "n \<le> m" and fr: "n + length rest < m" by simp_all
      from nm pp have ppm: "ParsePrimary m (getNextToken s) = Some (Some R, s2)"
        by (rule ParsePrimary_mono)
      obtain q' s3 where g2: "GetTokPrecedence s2 = (q', s3)" by (cases "GetTokPrecedence s2")
      show ?thesis
      proof (cases "q < q'")
        case True
        with q have "0 \<le> q'" by simp
        with g2 have s3: "s3 = s2" by (rule GetTokPrecedence_operator_state)
        have "\<exists>T ops1 ops2 s' k'.
           ParseBinOpRHS m (q + 1) R s2 = Some (Some (ast_of T), s')
           \<and> rest = ops1 @ ops2 \<and> read_operators k' n s' = Some (ops2, e)
           \<and> snd (GetTokPrecedence s') = s'
           \<and> first_operand T = R \<and> operators T = ops1
           \<and> grouped T \<and> (T = Operand R \<or> binds (q + 1) T)
           \<and> (ops2 \<noteq> [] \<longrightarrow> fst (snd (hd ops2)) < q + 1)"
          using Suc.IH [OF rr, of "Operand R" "q + 1"] q fr by simp
        then obtain T1 a1 a2 s4 k4 where
          i1: "ParseBinOpRHS m (q + 1) R s2 = Some (Some (ast_of T1), s4)"
          and i2: "rest = a1 @ a2" and i3: "read_operators k4 n s4 = Some (a2, e)"
          and i5: "first_operand T1 = R" and i6: "operators T1 = a1"
          and i7: "grouped T1" and i8: "T1 = Operand R \<or> binds (q + 1) T1"
          and i9: "a2 \<noteq> [] \<longrightarrow> fst (snd (hd a2)) < q + 1"
          by blast
        let ?c = "tok_to_char (CurTok s)"
        let ?L = "Grouped ?c q L T1"
        from i8 have b1: "binds (q + 1) T1" by auto
        with gL i7 bL have gL1: "grouped ?L" by simp
        from i9 have hd1: "a2 \<noteq> [] \<longrightarrow> binds (fst (snd (hd a2))) ?L" by simp
        from fr i2 have fr1: "n + length a2 < m" by simp
        from Suc.IH [OF i3 gL1 p0 hd1 fr1]
        obtain T b1 b2 s' k' where
          j1: "ParseBinOpRHS m p (ast_of ?L) s4 = Some (Some (ast_of T), s')"
          and j2: "a2 = b1 @ b2" and j3: "read_operators k' n s' = Some (b2, e)"
          and j4: "snd (GetTokPrecedence s') = s'"
          and j5: "first_operand T = first_operand ?L" and j6: "operators T = operators ?L @ b1"
          and j7: "grouped T" and j8: "T = ?L \<or> binds p T"
          and j9: "b2 \<noteq> [] \<longrightarrow> fst (snd (hd b2)) < p"
          by blast
        from g s1 False ppm g2 s3 True i1 j1
        have r: "ParseBinOpRHS (Suc m) p (ast_of L) s = Some (Some (ast_of T), s')" by simp
        from Cons i2 j2 have sp: "ops = (op # a1 @ b1) @ b2" by simp
        from j5 have fo: "first_operand T = first_operand L" by simp
        from j6 i5 i6 op have os: "operators T = operators L @ (op # a1 @ b1)" by simp
        from j8 False have bT: "T = L \<or> binds p T" by auto
        from r sp j3 j4 fo os j7 bT j9 show ?thesis by blast
      next
        case no: False
        let ?c = "tok_to_char (CurTok s)"
        let ?L = "Grouped ?c q L (Operand R)"
        from rr read_operators_again [OF g2, of k0 n]
        have rr3: "read_operators k0 n s3 = Some (rest, e)" by simp
        from gL bL have gL1: "grouped ?L" by simp
        have hd1: "rest \<noteq> [] \<longrightarrow> binds (fst (snd (hd rest))) ?L"
        proof
          assume "rest \<noteq> []"
          then obtain op2 rest2 where rest: "rest = op2 # rest2" by (cases rest) simp_all
          with rr read_operators_Cons [of k0 n s2 op2 rest2 e]
          have "fst (snd op2) = fst (GetTokPrecedence s2)" by auto
          with g2 no rest show "binds (fst (snd (hd rest))) ?L" by simp
        qed
        from Suc.IH [OF rr3 gL1 p0 hd1 fr]
        obtain T b1 b2 s' k' where
          j1: "ParseBinOpRHS m p (ast_of ?L) s3 = Some (Some (ast_of T), s')"
          and j2: "rest = b1 @ b2" and j3: "read_operators k' n s' = Some (b2, e)"
          and j4: "snd (GetTokPrecedence s') = s'"
          and j5: "first_operand T = first_operand ?L" and j6: "operators T = operators ?L @ b1"
          and j7: "grouped T" and j8: "T = ?L \<or> binds p T"
          and j9: "b2 \<noteq> [] \<longrightarrow> fst (snd (hd b2)) < p"
          by blast
        from g s1 False ppm g2 no j1
        have r: "ParseBinOpRHS (Suc m) p (ast_of L) s = Some (Some (ast_of T), s')" by simp
        from Cons j2 have sp: "ops = (op # b1) @ b2" by simp
        from j5 have fo: "first_operand T = first_operand L" by simp
        from j6 op have os: "operators T = operators L @ (op # b1)" by simp
        from j8 False have bT: "T = L \<or> binds p T" by auto
        from r sp j3 j4 fo os j7 bT j9 show ?thesis by blast
      qed
    qed
  qed
qed

text \<open>\<^verbatim>\<open>ParseExpression\<close> returns the grouping of the whole sequence.\<close>

lemma ParseExpression_grouping:
  assumes "ParsePrimary n s = Some (Some x, s1)" and "read_operators k n s1 = Some (ops, e)"
    and "n + length ops + 1 < m"
  shows "\<exists>T. ParseExpression m s = Some (Some (ast_of T), e)
             \<and> first_operand T = x \<and> operators T = ops \<and> grouped T"
proof -
  from assms(3) obtain m0 where m: "m = Suc m0" and fuel: "n + length ops < m0" and nm: "n \<le> m0"
    by (cases m) simp_all
  from nm assms(1) have pp: "ParsePrimary m0 s = Some (Some x, s1)" by (rule ParsePrimary_mono)
  have "\<exists>T ops1 ops2 s' k'.
           ParseBinOpRHS m0 0 x s1 = Some (Some (ast_of T), s')
           \<and> ops = ops1 @ ops2 \<and> read_operators k' n s' = Some (ops2, e)
           \<and> snd (GetTokPrecedence s') = s'
           \<and> first_operand T = x \<and> operators T = ops1
           \<and> grouped T \<and> (T = Operand x \<or> binds 0 T)
           \<and> (ops2 \<noteq> [] \<longrightarrow> fst (snd (hd ops2)) < 0)"
    using ParseBinOpRHS_grouping [OF assms(2), of "Operand x" 0 m0] fuel by simp
  then obtain T ops1 ops2 s' k' where
    j1: "ParseBinOpRHS m0 0 x s1 = Some (Some (ast_of T), s')"
    and j2: "ops = ops1 @ ops2" and j3: "read_operators k' n s' = Some (ops2, e)"
    and j4: "snd (GetTokPrecedence s') = s'"
    and j5: "first_operand T = x" and j6: "operators T = ops1"
    and j7: "grouped T"
    and j9: "ops2 \<noteq> [] \<longrightarrow> fst (snd (hd ops2)) < 0"
    by blast
  have nil: "ops2 = []"
  proof (rule ccontr)
    assume ne: "ops2 \<noteq> []"
    then obtain c q y rest where o: "ops2 = (c, q, y) # rest" by (cases ops2) auto
    with j2 have "(c, q, y) \<in> set ops" by simp
    with read_operators_precedence [OF assms(2)] have "0 \<le> q" by blast
    with j9 ne o show False by simp
  qed
  with j3 read_operators_Nil(1) [of k' n s' e] j4 have "e = s'" by simp
  with m pp j1 have "ParseExpression m s = Some (Some (ast_of T), e)" by simp
  with j2 nil j5 j6 j7 show ?thesis by auto
qed


section \<open>The lexer at the end of input\<close>

lemma skip_whitespace_EOF: "LastChar s = None \<Longrightarrow> skip_whitespace s = s"
  by (subst skip_whitespace.simps) (simp add: isspace_def)

lemma gettok_EOF: "LastChar s = None \<Longrightarrow> gettok s = (tok_eof, s)"
  by (subst gettok.simps) (simp add: skip_whitespace_EOF isalpha_def isdigit_def Let_def)

lemma gettok_eof_LastChar: "fst (gettok s0) = tok_eof \<Longrightarrow> LastChar (snd (gettok s0)) = None"
proof (induction s0 rule: gettok.induct)
  case (1 s0)
  let ?s = "skip_whitespace s0"
  show ?case
  proof (cases "\<not> isalpha (LastChar ?s) \<and> \<not> (isdigit (LastChar ?s) \<or> LastChar ?s = Some CHR ''.'')
                \<and> LastChar ?s = Some CHR ''#'' \<and> LastChar (skip_comment ?s) \<noteq> None")
    case True
    then have eq: "gettok s0 = gettok (skip_comment ?s)"
      by (subst gettok.simps) (simp add: Let_def isalpha_def isdigit_def)
    with True "1.prems" "1.IH" [of ?s] show ?thesis by (simp add: isalpha_def isdigit_def)
  next
    case False
    with "1.prems" show ?thesis
      by (subst gettok.simps, subst (asm) gettok.simps)
         (auto simp: Let_def split: if_splits prod.splits option.splits)
  qed
qed

text \<open>
  C10. Once \<^verbatim>\<open>gettok\<close> has returned the end token, every later call returns the end token
  again and leaves all globals as they are: nothing more is read from standard input
  (the count of \<^verbatim>\<open>getchar\<close> calls and the unread input stay the same), and the same holds
  for any number of further calls.
\<close>

theorem gettok_eof_repeatable:
  "fst (gettok s) = tok_eof \<Longrightarrow>
     gettok (snd (gettok s)) = (tok_eof, snd (gettok s))
     \<and> ((\<lambda>x. snd (gettok x)) ^^ k) (snd (gettok s)) = snd (gettok s)
     \<and> fst (gettok (((\<lambda>x. snd (gettok x)) ^^ k) (snd (gettok s)))) = tok_eof
     \<and> reads (snd (gettok (snd (gettok s)))) = reads (snd (gettok s))
     \<and> stdin (snd (gettok (snd (gettok s)))) = stdin (snd (gettok s))"
proof -
  assume "fst (gettok s) = tok_eof"
  then have e: "LastChar (snd (gettok s)) = None" by (rule gettok_eof_LastChar)
  then have g: "gettok (snd (gettok s)) = (tok_eof, snd (gettok s))" by (rule gettok_EOF)
  have it: "((\<lambda>x. snd (gettok x)) ^^ k) (snd (gettok s)) = snd (gettok s)"
    by (induction k) (simp_all add: g)
  from g it show ?thesis by simp
qed

theorem gettok_eof_repeatable_witness:
  "fst (gettok (snd (gettok (startup ''7 # end'')))) = tok_eof
   \<and> fst (gettok (snd (gettok (snd (gettok (startup ''7 # end'')))))) = tok_eof
   \<and> ((\<lambda>x. snd (gettok x)) ^^ 5) (snd (gettok (snd (gettok (startup ''7 # end'')))))
       = snd (gettok (snd (gettok (startup ''7 # end''))))
   \<and> reads (snd (gettok (snd (gettok (snd (gettok (startup ''7 # end'')))))))
       = reads (snd (gettok (snd (gettok (startup ''7 # end'')))))"
proof -
  have h: "fst (gettok (snd (gettok (startup ''7 # end'')))) = tok_eof" by code_simp
  from gettok_eof_repeatable [OF h, of 5] h show ?thesis by simp
qed

section \<open>The driver\<close>

text \<open>
  C1 as stated fails: the driver never calls the execution engine. For the input
  \<^verbatim>\<open>4+5\<close> everything the process writes and calls is the prompt, the confirmation line, the
  printed wrapper and a newline; no \<open>Execute\<close> is among it, and the module is empty at the
  end.
\<close>

theorem top_level_expression_not_executed:
  "map_option (\<lambda>s. (out s, FunctionList (TheModule s))) (main 20 ''4+5'')
     = Some ([Prompt, Prompt, Message (''Parsed a top-level expr'' @ [CHR 0x0A]),
              PrintIR 0 (Some \<lparr>fn_name = [], fn_args = [],
                 fn_blocks = EntryBlock (Some (FAdd (ConstantFP (Dbl 4)) (ConstantFP (Dbl 5))))\<rparr>),
              Message [CHR 0x0A], Prompt], [])
   \<and> map_option (\<lambda>s. list_ex is_Execute (out s)) (main 20 ''4+5'') = Some False"
  by code_simp

text \<open>
  C1, amended. A bare top-level expression is parsed into a function with the empty name
  and no parameters. When its lowering succeeds, \<^verbatim>\<open>HandleTopLevelExpression\<close> writes the
  confirmation line, the function and a newline, and then erases the function from the
  module; from the start of the handler to its end only diagnostics and these three
  writes are produced, so nothing is executed. In a well-formed module the printed
  wrapper has the empty name, no arguments and a body.
\<close>

theorem top_level_expression_printed_then_erased:
  assumes "ParseTopLevelExpr n s = Some (Some FnAST, s1)"
    and "FunctionAST_codegen FnAST s1 = (Some FnIR, s2)"
  shows "(\<exists>E. FnAST = FunctionAST (PrototypeAST [] []) E)
     \<and> HandleTopLevelExpression n s
         = Some ((report (''Parsed a top-level expr'' @ [CHR 0x0A]) FnIR s2)
                   \<lparr>TheModule := eraseFromParent FnIR (TheModule s2)\<rparr>)
     \<and> map_of (FunctionList (eraseFromParent FnIR (TheModule s2))) FnIR = None
     \<and> (\<exists>es. out ((report (''Parsed a top-level expr'' @ [CHR 0x0A]) FnIR s2)
                   \<lparr>TheModule := eraseFromParent FnIR (TheModule s2)\<rparr>)
           = out s @ map Error es
               @ [Message (''Parsed a top-level expr'' @ [CHR 0x0A]),
                  PrintIR FnIR (map_of (FunctionList (TheModule s2)) FnIR),
                  Message [CHR 0x0A]])
     \<and> (wf_Module (TheModule s) \<longrightarrow>
          (\<exists>RetVal. map_of (FunctionList (TheModule s2)) FnIR
             = Some \<lparr>fn_name = [], fn_args = [], fn_blocks = EntryBlock (Some RetVal)\<rparr>))"
proof -
  from assms(1) obtain E where fn: "FnAST = FunctionAST (PrototypeAST [] []) E"
    by (auto simp: ParseTopLevelExpr_def split: option.splits)
  have h: "HandleTopLevelExpression n s
         = Some ((report (''Parsed a top-level expr'' @ [CHR 0x0A]) FnIR s2)
                   \<lparr>TheModule := eraseFromParent FnIR (TheModule s2)\<rparr>)"
    using assms by (simp add: HandleTopLevelExpression_def Let_def report_def)
  from assms(1) have p: "parse_frame s s1" by (rule parse_frame_ParseTopLevelExpr)
  then obtain es1 where o1: "out s1 = out s @ map Error es1" by (auto simp: parse_frame_def)
  have "fn_frame s1 s2" using fn_frame_FunctionAST_codegen [of s1 FnAST] assms(2) by simp
  then obtain es2 where o2: "out s2 = out s1 @ map Error es2" by (auto simp: fn_frame_def)
  have "out s2 = out s @ map Error (es1 @ es2)" by (simp add: o1 o2)
  then have o: "\<exists>es. out ((report (''Parsed a top-level expr'' @ [CHR 0x0A]) FnIR s2)
                   \<lparr>TheModule := eraseFromParent FnIR (TheModule s2)\<rparr>)
           = out s @ map Error es
               @ [Message (''Parsed a top-level expr'' @ [CHR 0x0A]),
                  PrintIR FnIR (map_of (FunctionList (TheModule s2)) FnIR),
                  Message [CHR 0x0A]]"
    by (intro exI [of _ "es1 @ es2"]) (simp add: report_def)
  have w: "\<exists>RetVal. map_of (FunctionList (TheModule s2)) FnIR
             = Some \<lparr>fn_name = [], fn_args = [], fn_blocks = EntryBlock (Some RetVal)\<rparr>"
    if wf: "wf_Module (TheModule s)"
  proof -
    from p have m: "TheModule s1 = TheModule s" by (simp add: parse_frame_def)
    have g: "getFunction (TheModule s1) [] = None" by (simp add: getFunction_def)
    from FunctionAST_codegen_fresh_object [OF _ g, of "[]" E FnIR s2] wf m assms(2) fn
    show ?thesis by (simp add: setName_Function_def)
  qed
  from fn h o w show ?thesis by (simp add: map_of_eraseFromParent)
qed

theorem top_level_expression_printed_then_erased_witness:
  "ParseTopLevelExpr 20 (main_setup ''4+5'')
     = Some (Some (FunctionAST (PrototypeAST [] [])
               (BinaryExprAST CHR ''+'' (NumberExprAST (Dbl 4)) (NumberExprAST (Dbl 5)))),
             snd (the (ParseTopLevelExpr 20 (main_setup ''4+5''))))
   \<and> fst (FunctionAST_codegen (FunctionAST (PrototypeAST [] [])
               (BinaryExprAST CHR ''+'' (NumberExprAST (Dbl 4)) (NumberExprAST (Dbl 5))))
            (snd (the (ParseTopLevelExpr 20 (main_setup ''4+5''))))) = Some 0
   \<and> wf_Module (TheModule (main_setup ''4+5''))
   \<and> map_option (\<lambda>s. FunctionList (TheModule s)) (HandleTopLevelExpression 20 (main_setup ''4+5''))
       = Some (FunctionList (eraseFromParent 0 (TheModule (snd (FunctionAST_codegen
           (FunctionAST (PrototypeAST [] [])
               (BinaryExprAST CHR ''+'' (NumberExprAST (Dbl 4)) (NumberExprAST (Dbl 5))))
            (snd (the (ParseTopLevelExpr 20 (main_setup ''4+5'')))))))))"
proof -
  let ?s = "main_setup ''4+5''"
  let ?fn = "FunctionAST (PrototypeAST [] [])
               (BinaryExprAST CHR ''+'' (NumberExprAST (Dbl 4)) (NumberExprAST (Dbl 5)))"
  let ?s1 = "snd (the (ParseTopLevelExpr 20 ?s))"
  let ?s2 = "snd (FunctionAST_codegen ?fn ?s1)"
  have p: "ParseTopLevelExpr 20 ?s = Some (Some ?fn, ?s1)" by code_simp
  have c0: "fst (FunctionAST_codegen ?fn ?s1) = Some 0" by code_simp
  then have c: "FunctionAST_codegen ?fn ?s1 = (Some 0, ?s2)" by (simp add: prod_eq_iff)
  have w: "wf_Module (TheModule ?s)" by code_simp
  note t = top_level_expression_printed_then_erased [OF p c]
  from t have "HandleTopLevelExpression 20 ?s
         = Some ((report (''Parsed a top-level expr'' @ [CHR 0x0A]) 0 ?s2)
                   \<lparr>TheModule := eraseFromParent 0 (TheModule ?s2)\<rparr>)" by (elim conjE)
  then have "map_option (\<lambda>s. FunctionList (TheModule s)) (HandleTopLevelExpression 20 ?s)
       = Some (FunctionList (eraseFromParent 0 (TheModule ?s2)))" by simp
  with p c0 w show ?thesis by (intro conjI)
qed

text \<open>
  C3 as stated fails for a form that fails in code generation: the handler consumes no
  token then. For the input \<^verbatim>\<open>x;7\<close> the parser stops at \<^verbatim>\<open>;\<close> after three reads, lowering
  \<^verbatim>\<open>x\<close> fails, and the handler returns with the lexer where the parser left it, the
  current token still \<^verbatim>\<open>;\<close>; one more token would have made it the number.
\<close>

theorem codegen_failure_consumes_no_token:
  "map_option (\<lambda>(r, s1). (r, input_position s1)) (ParseTopLevelExpr 20 (main_setup ''x;7''))
     = Some (Some (FunctionAST (PrototypeAST [] []) (VariableExprAST ''x'')),
             [], 3, Some CHR ''7'', ''x'', Dbl 0, tok_char CHR '';'')
   \<and> map_option (\<lambda>(r, s1). fst (FunctionAST_codegen (FunctionAST (PrototypeAST [] []) (VariableExprAST ''x'')) s1))
        (ParseTopLevelExpr 20 (main_setup ''x;7'')) = Some None
   \<and> map_option input_position (HandleTopLevelExpression 20 (main_setup ''x;7''))
     = Some ([], 3, Some CHR ''7'', ''x'', Dbl 0, tok_char CHR '';'')
   \<and> map_option (\<lambda>(r, s1). input_position (getNextToken s1)) (ParseTopLevelExpr 20 (main_setup ''x;7''))
     = Some ([], 4, None, ''x'', Dbl 7, tok_number)"
  by code_simp

text \<open>
  C3, amended. When the parser fails on a top-level form, the handler calls
  \<^verbatim>\<open>getNextToken\<close> once on the state the parser left and returns. When the parser succeeds
  and code generation fails, the handler returns the state of the code generator, in
  which the lexer and the current token are as the parser left them: no further token is
  consumed. \<^verbatim>\<open>MainLoop\<close> returns only in a state whose current token is the end token, and
  it does return there for every input: a bound of three units for each character of the
  input and eight more is never reached.
\<close>

theorem recovery_after_failed_form:
  "(ParseDefinition n s = Some (None, s1) \<longrightarrow> HandleDefinition n s = Some (getNextToken s1))
   \<and> (ParseExtern s = (None, s1) \<longrightarrow> HandleExtern s = getNextToken s1)
   \<and> (ParseTopLevelExpr n s = Some (None, s1) \<longrightarrow>
        HandleTopLevelExpression n s = Some (getNextToken s1))
   \<and> (ParseDefinition n s = Some (Some FnAST, s1) \<and> fst (FunctionAST_codegen FnAST s1) = None \<longrightarrow>
        HandleDefinition n s = Some (snd (FunctionAST_codegen FnAST s1))
        \<and> input_position (snd (FunctionAST_codegen FnAST s1)) = input_position s1)
   \<and> (ParseTopLevelExpr n s = Some (Some FnAST, s1) \<and> fst (FunctionAST_codegen FnAST s1) = None \<longrightarrow>
        HandleTopLevelExpression n s = Some (snd (FunctionAST_codegen FnAST s1))
        \<and> input_position (snd (FunctionAST_codegen FnAST s1)) = input_position s1)
   \<and> (MainLoop n s = Some s2 \<longrightarrow> CurTok s2 = tok_eof)
   \<and> (3 * length input + 8 \<le> n \<longrightarrow> map_option CurTok (main n input) = Some tok_eof)"
proof -
  have ip: "input_position (snd (FunctionAST_codegen FnAST s1)) = input_position s1"
    using fn_frame_FunctionAST_codegen [of s1 FnAST] by (simp add: fn_frame_def)
  have d: "HandleDefinition n s = Some (snd (FunctionAST_codegen FnAST s1))"
    if "ParseDefinition n s = Some (Some FnAST, s1)" "fst (FunctionAST_codegen FnAST s1) = None"
    using that by (cases "FunctionAST_codegen FnAST s1") (simp add: HandleDefinition_def)
  have e: "HandleTopLevelExpression n s = Some (snd (FunctionAST_codegen FnAST s1))"
    if "ParseTopLevelExpr n s = Some (Some FnAST, s1)" "fst (FunctionAST_codegen FnAST s1) = None"
    using that by (cases "FunctionAST_codegen FnAST s1") (simp add: HandleTopLevelExpression_def)
  have a: "ParseDefinition n s = Some (None, s1) \<longrightarrow> HandleDefinition n s = Some (getNextToken s1)"
    by (simp add: HandleDefinition_def)
  have b: "ParseExtern s = (None, s1) \<longrightarrow> HandleExtern s = getNextToken s1"
    by (simp add: HandleExtern_def)
  have c: "ParseTopLevelExpr n s = Some (None, s1) \<longrightarrow>
        HandleTopLevelExpression n s = Some (getNextToken s1)"
    by (simp add: HandleTopLevelExpression_def)
  have f: "MainLoop n s = Some s2 \<longrightarrow> CurTok s2 = tok_eof"
    by (auto dest: MainLoop_returns_at_eof)
  have g: "3 * length input + 8 \<le> n \<longrightarrow> map_option CurTok (main n input) = Some tok_eof"
    using main_returns [of input n] by auto
  from a b c d e f g ip show ?thesis by blast
qed

theorem recovery_after_failed_form_witness:
  "ParseDefinition 20 (main_setup ''def 1 2'') = Some (None, snd (the (ParseDefinition 20 (main_setup ''def 1 2''))))
   \<and> HandleDefinition 20 (main_setup ''def 1 2'')
       = Some (getNextToken (snd (the (ParseDefinition 20 (main_setup ''def 1 2'')))))
   \<and> ParseExtern (main_setup ''extern f(x, y) 2'') = (None, snd (ParseExtern (main_setup ''extern f(x, y) 2'')))
   \<and> HandleExtern (main_setup ''extern f(x, y) 2'')
       = getNextToken (snd (ParseExtern (main_setup ''extern f(x, y) 2'')))
   \<and> ParseTopLevelExpr 20 (main_setup '') 2'') = Some (None, snd (the (ParseTopLevelExpr 20 (main_setup '') 2''))))
   \<and> HandleTopLevelExpression 20 (main_setup '') 2'')
       = Some (getNextToken (snd (the (ParseTopLevelExpr 20 (main_setup '') 2'')))))
   \<and> ParseDefinition 20 (main_setup ''def f(x) y 2'')
       = Some (Some (FunctionAST (PrototypeAST ''f'' [''x'']) (VariableExprAST ''y'')),
               snd (the (ParseDefinition 20 (main_setup ''def f(x) y 2''))))
   \<and> fst (FunctionAST_codegen (FunctionAST (PrototypeAST ''f'' [''x'']) (VariableExprAST ''y''))
             (snd (the (ParseDefinition 20 (main_setup ''def f(x) y 2''))))) = None
   \<and> input_position (snd (FunctionAST_codegen (FunctionAST (PrototypeAST ''f'' [''x'']) (VariableExprAST ''y''))
             (snd (the (ParseDefinition 20 (main_setup ''def f(x) y 2''))))))
       = input_position (snd (the (ParseDefinition 20 (main_setup ''def f(x) y 2''))))
   \<and> ParseTopLevelExpr 20 (main_setup ''x;7'')
       = Some (Some (FunctionAST (PrototypeAST [] []) (VariableExprAST ''x'')),
               snd (the (ParseTopLevelExpr 20 (main_setup ''x;7''))))
   \<and> fst (FunctionAST_codegen (FunctionAST (PrototypeAST [] []) (VariableExprAST ''x''))
             (snd (the (ParseTopLevelExpr 20 (main_setup ''x;7''))))) = None
   \<and> HandleTopLevelExpression 20 (main_setup ''x;7'')
       = Some (snd (FunctionAST_codegen (FunctionAST (PrototypeAST [] []) (VariableExprAST ''x''))
             (snd (the (ParseTopLevelExpr 20 (main_setup ''x;7''))))))
   \<and> MainLoop 20 (main_setup '') def 1 2 x;'') = Some (the (MainLoop 20 (main_setup '') def 1 2 x;'')))
   \<and> CurTok (the (MainLoop 20 (main_setup '') def 1 2 x;''))) = tok_eof
   \<and> 3 * length '') def 1 2 x;'' + 8 \<le> (50::nat)
   \<and> map_option CurTok (main 50 '') def 1 2 x;'') = Some tok_eof"
proof -
  have a: "ParseDefinition 20 (main_setup ''def 1 2'')
      = Some (None, snd (the (ParseDefinition 20 (main_setup ''def 1 2''))))" by code_simp
  have b: "ParseExtern (main_setup ''extern f(x, y) 2'')
      = (None, snd (ParseExtern (main_setup ''extern f(x, y) 2'')))" by code_simp
  have c: "ParseTopLevelExpr 20 (main_setup '') 2'')
      = Some (None, snd (the (ParseTopLevelExpr 20 (main_setup '') 2''))))" by code_simp
  have d1: "ParseDefinition 20 (main_setup ''def f(x) y 2'')
       = Some (Some (FunctionAST (PrototypeAST ''f'' [''x'']) (VariableExprAST ''y'')),
               snd (the (ParseDefinition 20 (main_setup ''def f(x) y 2''))))" by code_simp
  have d2: "fst (FunctionAST_codegen (FunctionAST (PrototypeAST ''f'' [''x'']) (VariableExprAST ''y''))
             (snd (the (ParseDefinition 20 (main_setup ''def f(x) y 2''))))) = None" by code_simp
  have e1: "ParseTopLevelExpr 20 (main_setup ''x;7'')
       = Some (Some (FunctionAST (PrototypeAST [] []) (VariableExprAST ''x'')),
               snd (the (ParseTopLevelExpr 20 (main_setup ''x;7''))))" by code_simp
  have e2: "fst (FunctionAST_codegen (FunctionAST (PrototypeAST [] []) (VariableExprAST ''x''))
             (snd (the (ParseTopLevelExpr 20 (main_setup ''x;7''))))) = None" by code_simp
  have f: "MainLoop 20 (main_setup '') def 1 2 x;'')
      = Some (the (MainLoop 20 (main_setup '') def 1 2 x;'')))" by code_simp
  let ?d = "main_setup []"
  let ?f = "FunctionAST (PrototypeAST [] []) (NumberExprAST (Dbl 0))"
  from recovery_after_failed_form [of 20 "main_setup ''def 1 2''"
      "snd (the (ParseDefinition 20 (main_setup ''def 1 2'')))" ?f ?d "[]"]
  have "ParseDefinition 20 (main_setup ''def 1 2'')
      = Some (None, snd (the (ParseDefinition 20 (main_setup ''def 1 2'')))) \<longrightarrow>
    HandleDefinition 20 (main_setup ''def 1 2'')
       = Some (getNextToken (snd (the (ParseDefinition 20 (main_setup ''def 1 2'')))))"
    by (elim conjE)
  with a have A: "HandleDefinition 20 (main_setup ''def 1 2'')
       = Some (getNextToken (snd (the (ParseDefinition 20 (main_setup ''def 1 2'')))))"
    by (rule rev_mp)
  from recovery_after_failed_form [of 20 "main_setup ''extern f(x, y) 2''"
      "snd (ParseExtern (main_setup ''extern f(x, y) 2''))" ?f ?d "[]"]
  have "ParseExtern (main_setup ''extern f(x, y) 2'')
      = (None, snd (ParseExtern (main_setup ''extern f(x, y) 2''))) \<longrightarrow>
    HandleExtern (main_setup ''extern f(x, y) 2'')
       = getNextToken (snd (ParseExtern (main_setup ''extern f(x, y) 2'')))"
    by (elim conjE)
  with b have B: "HandleExtern (main_setup ''extern f(x, y) 2'')
       = getNextToken (snd (ParseExtern (main_setup ''extern f(x, y) 2'')))"
    by (rule rev_mp)
  from recovery_after_failed_form [of 20 "main_setup '') 2''"
      "snd (the (ParseTopLevelExpr 20 (main_setup '') 2'')))" ?f ?d "[]"]
  have "ParseTopLevelExpr 20 (main_setup '') 2'')
      = Some (None, snd (the (ParseTopLevelExpr 20 (main_setup '') 2'')))) \<longrightarrow>
    HandleTopLevelExpression 20 (main_setup '') 2'')
       = Some (getNextToken (snd (the (ParseTopLevelExpr 20 (main_setup '') 2'')))))"
    by (elim conjE)
  with c have C: "HandleTopLevelExpression 20 (main_setup '') 2'')
       = Some (getNextToken (snd (the (ParseTopLevelExpr 20 (main_setup '') 2'')))))"
    by (rule rev_mp)
  let ?fd = "FunctionAST (PrototypeAST ''f'' [''x'']) (VariableExprAST ''y'')"
  let ?sd = "snd (the (ParseDefinition 20 (main_setup ''def f(x) y 2'')))"
  from recovery_after_failed_form [of 20 "main_setup ''def f(x) y 2''" ?sd ?fd ?d "[]"]
  have "ParseDefinition 20 (main_setup ''def f(x) y 2'') = Some (Some ?fd, ?sd)
        \<and> fst (FunctionAST_codegen ?fd ?sd) = None \<longrightarrow>
      HandleDefinition 20 (main_setup ''def f(x) y 2'') = Some (snd (FunctionAST_codegen ?fd ?sd))
      \<and> input_position (snd (FunctionAST_codegen ?fd ?sd)) = input_position ?sd"
    by (elim conjE)
  with d1 d2 have D: "input_position (snd (FunctionAST_codegen ?fd ?sd)) = input_position ?sd"
    by simp
  let ?fe = "FunctionAST (PrototypeAST [] []) (VariableExprAST ''x'')"
  let ?se = "snd (the (ParseTopLevelExpr 20 (main_setup ''x;7'')))"
  from recovery_after_failed_form [of 20 "main_setup ''x;7''" ?se ?fe ?d "[]"]
  have "ParseTopLevelExpr 20 (main_setup ''x;7'') = Some (Some ?fe, ?se)
        \<and> fst (FunctionAST_codegen ?fe ?se) = None \<longrightarrow>
      HandleTopLevelExpression 20 (main_setup ''x;7'') = Some (snd (FunctionAST_codegen ?fe ?se))
      \<and> input_position (snd (FunctionAST_codegen ?fe ?se)) = input_position ?se"
    by (elim conjE)
  with e1 e2 have E: "HandleTopLevelExpression 20 (main_setup ''x;7'')
       = Some (snd (FunctionAST_codegen ?fe ?se))"
    by simp
  let ?sf = "the (MainLoop 20 (main_setup '') def 1 2 x;''))"
  from recovery_after_failed_form [of 20 "main_setup '') def 1 2 x;''" ?d ?f ?sf "[]"]
  have "MainLoop 20 (main_setup '') def 1 2 x;'') = Some ?sf \<longrightarrow> CurTok ?sf = tok_eof"
    by (elim conjE)
  with f have F: "CurTok ?sf = tok_eof" by (rule rev_mp)
  have g: "3 * length '') def 1 2 x;'' + 8 \<le> (50::nat)" by simp
  from recovery_after_failed_form [of 50 ?d ?d ?f ?d "'') def 1 2 x;''"]
  have "3 * length '') def 1 2 x;'' + 8 \<le> (50::nat)
      \<longrightarrow> map_option CurTok (main 50 '') def 1 2 x;'') = Some tok_eof"
    by (elim conjE)
  with g have G: "map_option CurTok (main 50 '') def 1 2 x;'') = Some tok_eof" by (rule rev_mp)
  from a A b B c C d1 d2 D e1 e2 E f F g G show ?thesis by (intro conjI)
qed


section \<open>Definitions and the module\<close>

text \<open>
  C5. A definition whose name is in the module with a body is rejected: the result is
  null, the diagnostic \<^verbatim>\<open>Function cannot be redefined\<close> is the only change of the globals, and
  the name still refers to the function defined first, body included.
\<close>

theorem redefinition_rejected:
  assumes "wf_Module (TheModule s)"
    and "getFunction (TheModule s) (getName Proto) = Some (h, F)"
    and "fn_blocks F \<noteq> NoBlocks"
  shows "FunctionAST_codegen (FunctionAST Proto Body) s
           = (None, LogError ''Function cannot be redefined'' s)
         \<and> TheModule (snd (FunctionAST_codegen (FunctionAST Proto Body) s)) = TheModule s
         \<and> getFunction (TheModule (snd (FunctionAST_codegen (FunctionAST Proto Body) s))) (getName Proto)
             = Some (h, F)"
proof -
  have r: "resolve_Function Proto s = (h, s)" using assms(2) by (simp add: resolve_Function_def)
  have "\<not> empty_Function (TheModule s) h"
    using assms by (simp add: empty_Function_found)
  with r have "FunctionAST_codegen (FunctionAST Proto Body) s
           = (None, LogError ''Function cannot be redefined'' s)"
    by (simp add: FunctionAST_codegen_def)
  with assms(2) show ?thesis by (simp add: LogError_def)
qed

theorem redefinition_rejected_witness:
  "wf_Module (TheModule (snd (FunctionAST_codegen
       (FunctionAST (PrototypeAST ''foo'' [''a'']) (VariableExprAST ''a'')) (startup []))))
   \<and> getFunction (TheModule (snd (FunctionAST_codegen
       (FunctionAST (PrototypeAST ''foo'' [''a'']) (VariableExprAST ''a'')) (startup []))))
         ''foo''
       = Some (0, \<lparr>fn_name = ''foo'', fn_args = [''a''],
                    fn_blocks = EntryBlock (Some (Argument 0 0))\<rparr>)
   \<and> fst (FunctionAST_codegen
         (FunctionAST (PrototypeAST ''foo'' [''a''])
            (BinaryExprAST CHR ''+'' (VariableExprAST ''a'') (NumberExprAST (Dbl 1))))
         (snd (FunctionAST_codegen
           (FunctionAST (PrototypeAST ''foo'' [''a'']) (VariableExprAST ''a'')) (startup []))))
       = None
   \<and> getFunction (TheModule (snd (FunctionAST_codegen
         (FunctionAST (PrototypeAST ''foo'' [''a''])
            (BinaryExprAST CHR ''+'' (VariableExprAST ''a'') (NumberExprAST (Dbl 1))))
         (snd (FunctionAST_codegen
           (FunctionAST (PrototypeAST ''foo'' [''a'']) (VariableExprAST ''a'')) (startup []))))))
         ''foo''
       = Some (0, \<lparr>fn_name = ''foo'', fn_args = [''a''],
                    fn_blocks = EntryBlock (Some (Argument 0 0))\<rparr>)"
proof -
  let ?s = "snd (FunctionAST_codegen
       (FunctionAST (PrototypeAST ''foo'' [''a'']) (VariableExprAST ''a'')) (startup []))"
  let ?F = "\<lparr>fn_name = ''foo'', fn_args = [''a''], fn_blocks = EntryBlock (Some (Argument 0 0))\<rparr>"
  have w: "wf_Module (TheModule ?s)" by code_simp
  have g: "getFunction (TheModule ?s) (getName (PrototypeAST ''foo'' [''a''])) = Some (0, ?F)"
    by code_simp
  have b: "fn_blocks ?F \<noteq> NoBlocks" by simp
  note t = redefinition_rejected [OF w g b,
      of "BinaryExprAST CHR ''+'' (VariableExprAST ''a'') (NumberExprAST (Dbl 1))"]
  from t have c1: "fst (FunctionAST_codegen
         (FunctionAST (PrototypeAST ''foo'' [''a''])
            (BinaryExprAST CHR ''+'' (VariableExprAST ''a'') (NumberExprAST (Dbl 1)))) ?s) = None"
    by (simp only: fst_conv)
  from t have c2: "getFunction (TheModule (snd (FunctionAST_codegen
         (FunctionAST (PrototypeAST ''foo'' [''a''])
            (BinaryExprAST CHR ''+'' (VariableExprAST ''a'') (NumberExprAST (Dbl 1)))) ?s)))
         (getName (PrototypeAST ''foo'' [''a''])) = Some (0, ?F)"
    by (elim conjE)
  from w g c1 c2 show ?thesis by (simp only: getName.simps)
qed

text \<open>
  C6. When the body of a definition fails to lower, \<^verbatim>\<open>FunctionAST::codegen\<close> returns null
  and the function it was filling (declared by this definition or found in the module)
  is gone from the module: its handle is not in the module, and no function of the
  module has the name of the definition, so a lookup of the name finds nothing.
\<close>

theorem failed_body_discarded:
  assumes "wf_Module (TheModule s)"
    and "resolve_Function Proto s = (TheFunction, s1)"
    and "empty_Function (TheModule s1) TheFunction"
    and "fst (ExprAST_codegen Body (enter_body TheFunction s1)) = None"
  shows "fst (FunctionAST_codegen (FunctionAST Proto Body) s) = None
     \<and> map_of (FunctionList (TheModule (snd (FunctionAST_codegen (FunctionAST Proto Body) s))))
          TheFunction = None
     \<and> getFunction (TheModule (snd (FunctionAST_codegen (FunctionAST Proto Body) s))) (getName Proto)
          = None
     \<and> getName Proto \<notin> set (symbol_names (TheModule (snd (FunctionAST_codegen (FunctionAST Proto Body) s))))"
proof (cases "getFunction (TheModule s) (getName Proto)")
  case None
  let ?M1 = "TheModule (snd (FunctionAST_codegen (FunctionAST Proto Body) s))"
  from None have tf: "TheFunction = next_handle (TheModule s)"
    using resolve_fresh(1) [OF None] assms(2) by simp
  from assms(2) have s1: "s1 = snd (resolve_Function Proto s)" by simp
  from assms(4) have b: "fst (ExprAST_codegen Body
      (enter_body (next_handle (TheModule s)) (snd (resolve_Function Proto s)))) = None"
    unfolding tf s1 .
  note f = failed_body_fresh [OF assms(1) None b]
  have g: "getFunction ?M1 (getName Proto) = None"
    using getFunction_FunctionList [OF f(2)] None by simp
  have n: "getName Proto \<notin> set (symbol_names ?M1)"
  proof (cases "getName Proto = []")
    case True
    then show ?thesis by (auto simp: symbol_names_def)
  next
    case False
    with g show ?thesis by (simp add: getFunction_None_iff)
  qed
  have "map_of (FunctionList ?M1) TheFunction = None"
    unfolding f(2) tf using assms(1) by (rule map_of_fresh_handle)
  with f(1) g n show ?thesis by simp
next
  case (Some p)
  obtain h F where p: "p = (h, F)" by (cases p)
  with Some have g: "getFunction (TheModule s) (getName Proto) = Some (h, F)" by simp
  then have r: "resolve_Function Proto s = (h, s)" by (simp add: resolve_Function_def)
  with assms(2) have tf: "TheFunction = h" and s1: "s1 = s" by simp_all
  from assms(3) have e: "fn_blocks F = NoBlocks"
    unfolding tf s1 using empty_Function_found [OF assms(1) g] by simp
  from assms(4) have b: "fst (ExprAST_codegen Body (enter_body h s)) = None" unfolding tf s1 .
  note f = failed_body_found [OF assms(1) g e b]
  have n: "getName Proto \<notin> set (symbol_names (eraseFromParent h (TheModule s)))"
    using assms(1) g by (rule symbol_names_erase_found)
  then have "getFunction (eraseFromParent h (TheModule s)) (getName Proto) = None"
    by (simp add: getFunction_None_iff)
  with f n show ?thesis by (simp add: tf map_of_eraseFromParent)
qed

theorem failed_body_discarded_witness:
  "wf_Module (TheModule (startup []))
   \<and> resolve_Function (PrototypeAST ''bar'' [''a'']) (startup [])
       = (0, (startup [])\<lparr>TheModule := \<lparr>FunctionList =
            [(0, \<lparr>fn_name = ''bar'', fn_args = [''a''], fn_blocks = NoBlocks\<rparr>)],
            next_handle = 1, LastUnique = 0\<rparr>\<rparr>)
   \<and> fst (FunctionAST_codegen (FunctionAST (PrototypeAST ''bar'' [''a'']) (VariableExprAST ''x''))
            (startup [])) = None
   \<and> getFunction (TheModule (snd (FunctionAST_codegen
          (FunctionAST (PrototypeAST ''bar'' [''a'']) (VariableExprAST ''x'')) (startup []))))
        ''bar'' = None
   \<and> ''bar'' \<notin> set (symbol_names (TheModule (snd (FunctionAST_codegen
          (FunctionAST (PrototypeAST ''bar'' [''a'']) (VariableExprAST ''x'')) (startup [])))))"
proof -
  let ?s1 = "(startup [])\<lparr>TheModule := \<lparr>FunctionList =
            [(0, \<lparr>fn_name = ''bar'', fn_args = [''a''], fn_blocks = NoBlocks\<rparr>)],
            next_handle = 1, LastUnique = 0\<rparr>\<rparr>"
  have w: "wf_Module (TheModule (startup []))" by code_simp
  have r: "resolve_Function (PrototypeAST ''bar'' [''a'']) (startup []) = (0, ?s1)" by code_simp
  have e: "empty_Function (TheModule ?s1) 0" by code_simp
  have b: "fst (ExprAST_codegen (VariableExprAST ''x'') (enter_body 0 ?s1)) = None" by code_simp
  note t = failed_body_discarded [OF w r e b]
  from t w r show ?thesis by (simp only: getName.simps) blast
qed

text \<open>
  C7. A definition that reuses a declaration already in the module (from an earlier
  \<^verbatim>\<open>extern\<close>, say) and whose body fails to lower erases that declaration. Afterwards a call
  of the name is rejected with \<^verbatim>\<open>Unknown function referenced\<close>, in the state the definition
  leaves and in every state in which the name is not in the module; declaring the name
  again puts it back.
\<close>

theorem failed_definition_erases_declaration:
  assumes "wf_Module (TheModule s)"
    and "getFunction (TheModule s) (getName Proto) = Some (h, F)"
    and "fn_blocks F = NoBlocks"
    and "fst (ExprAST_codegen Body (enter_body h s)) = None"
  shows "TheModule (snd (FunctionAST_codegen (FunctionAST Proto Body) s))
           = eraseFromParent h (TheModule s)
     \<and> (h, F) \<notin> set (FunctionList (TheModule (snd (FunctionAST_codegen (FunctionAST Proto Body) s))))
     \<and> ExprAST_codegen (CallExprAST (getName Proto) Args)
          (snd (FunctionAST_codegen (FunctionAST Proto Body) s))
         = (None, LogError ''Unknown function referenced''
                   (snd (FunctionAST_codegen (FunctionAST Proto Body) s)))
     \<and> (getFunction (TheModule s2) (getName Proto) = None \<longrightarrow>
          ExprAST_codegen (CallExprAST (getName Proto) Args) s2
            = (None, LogError ''Unknown function referenced'' s2))
     \<and> getFunction (TheModule (snd (PrototypeAST_codegen (PrototypeAST (getName Proto) Params)
          (snd (FunctionAST_codegen (FunctionAST Proto Body) s))))) (getName Proto) \<noteq> None"
proof -
  let ?s1 = "snd (FunctionAST_codegen (FunctionAST Proto Body) s)"
  note f = failed_body_found [OF assms]
  have n: "getName Proto \<notin> set (symbol_names (TheModule ?s1))"
    unfolding f(2) using assms(1,2) by (rule symbol_names_erase_found)
  then have g: "getFunction (TheModule ?s1) (getName Proto) = None"
    by (simp add: getFunction_None_iff)
  have ne: "getName Proto \<noteq> []" using getFunction_SomeD [OF assms(2)] by simp
  have m: "(h, F) \<notin> set (FunctionList (TheModule ?s1))"
    unfolding f(2) by (simp add: eraseFromParent_def)
  have d: "getFunction (TheModule (snd (PrototypeAST_codegen (PrototypeAST (getName Proto) Params) ?s1)))
             (getName Proto) \<noteq> None"
    unfolding TheModule_PrototypeAST_codegen using ne n by (rule getFunction_declared)
  from f(2) m g d show ?thesis by (simp add: unknown_function del: ExprAST_codegen.simps)
qed

theorem failed_definition_erases_declaration_witness:
  "wf_Module (TheModule (HandleExtern (main_setup ''extern foo(a) def foo(b) b'')))
   \<and> getFunction (TheModule (HandleExtern (main_setup ''extern foo(a) def foo(b) b''))) ''foo''
       = Some (0, \<lparr>fn_name = ''foo'', fn_args = [''a''], fn_blocks = NoBlocks\<rparr>)
   \<and> fst (ExprAST_codegen (VariableExprAST ''b'')
        (enter_body 0 (HandleExtern (main_setup ''extern foo(a) def foo(b) b'')))) = None
   \<and> TheModule (snd (FunctionAST_codegen
          (FunctionAST (PrototypeAST ''foo'' [''b'']) (VariableExprAST ''b''))
          (HandleExtern (main_setup ''extern foo(a) def foo(b) b''))))
       = eraseFromParent 0 (TheModule (HandleExtern (main_setup ''extern foo(a) def foo(b) b'')))
   \<and> fst (ExprAST_codegen (CallExprAST ''foo'' [NumberExprAST (Dbl 1)])
        (snd (FunctionAST_codegen
          (FunctionAST (PrototypeAST ''foo'' [''b'']) (VariableExprAST ''b''))
          (HandleExtern (main_setup ''extern foo(a) def foo(b) b''))))) = None
   \<and> getFunction (TheModule (main_setup [])) ''foo'' = None
   \<and> ExprAST_codegen (CallExprAST ''foo'' [NumberExprAST (Dbl 1)]) (main_setup [])
       = (None, LogError ''Unknown function referenced'' (main_setup []))"
proof -
  let ?s = "HandleExtern (main_setup ''extern foo(a) def foo(b) b'')"
  let ?F = "\<lparr>fn_name = ''foo'', fn_args = [''a''], fn_blocks = NoBlocks\<rparr>"
  have w: "wf_Module (TheModule ?s)" by code_simp
  have g: "getFunction (TheModule ?s) (getName (PrototypeAST ''foo'' [''b''])) = Some (0, ?F)"
    by code_simp
  have e: "fn_blocks ?F = NoBlocks" by simp
  have b: "fst (ExprAST_codegen (VariableExprAST ''b'') (enter_body 0 ?s)) = None" by code_simp
  have n: "getFunction (TheModule (main_setup [])) ''foo'' = None" by code_simp
  note t = failed_definition_erases_declaration [OF w g e b,
      of "[NumberExprAST (Dbl 1)]" "main_setup []" "[]"]
  from t have c1: "TheModule (snd (FunctionAST_codegen
          (FunctionAST (PrototypeAST ''foo'' [''b'']) (VariableExprAST ''b'')) ?s))
       = eraseFromParent 0 (TheModule ?s)" by (elim conjE)
  from t have c2: "fst (ExprAST_codegen (CallExprAST ''foo'' [NumberExprAST (Dbl 1)])
        (snd (FunctionAST_codegen
          (FunctionAST (PrototypeAST ''foo'' [''b'']) (VariableExprAST ''b'')) ?s))) = None"
    by (simp only: getName.simps fst_conv)
  from t n have c3: "ExprAST_codegen (CallExprAST ''foo'' [NumberExprAST (Dbl 1)]) (main_setup [])
       = (None, LogError ''Unknown function referenced'' (main_setup []))"
    by (simp only: getName.simps)
  from w g b c1 c2 n c3 show ?thesis by (simp only: getName.simps)
qed


section \<open>The scope table during code generation\<close>

text \<open>
  C8. After \<^verbatim>\<open>extern foo(a)\<close>, the definition \<^verbatim>\<open>def foo(b) b\<close> reuses the declared function:
  the scope table is rebuilt from the arguments of that function, so it binds \<^verbatim>\<open>a\<close> and
  not the parameter \<^verbatim>\<open>b\<close>, and the body \<^verbatim>\<open>b\<close> is an unknown variable. In \<^verbatim>\<open>def f(x x) x\<close> the
  second argument is renamed, and the table binds \<^verbatim>\<open>x\<close> and \<^verbatim>\<open>x1\<close>.
\<close>

theorem scope_of_reused_declaration:
  "resolve_Function (PrototypeAST ''foo'' [''b'']) (HandleExtern (main_setup ''extern foo(a)''))
     = (0, HandleExtern (main_setup ''extern foo(a)''))
   \<and> NamedValues (enter_body 0 (HandleExtern (main_setup ''extern foo(a)'')))
     = [(''a'', Some (Argument 0 0))]
   \<and> bindings (NamedValues (enter_body 0 (HandleExtern (main_setup ''extern foo(a)''))))
     \<noteq> param_bindings 0 [''b'']
   \<and> fst (FunctionAST_codegen (FunctionAST (PrototypeAST ''foo'' [''b'']) (VariableExprAST ''b''))
        (HandleExtern (main_setup ''extern foo(a)''))) = None
   \<and> map_option NamedValues (main 50 ''extern foo(a) def foo(b) b'')
     = Some [(''a'', Some (Argument 0 0)), (''b'', None)]
   \<and> map_option NamedValues (main 50 ''def f(x x) x'')
     = Some [(''x'', Some (Argument 0 0)), (''x1'', Some (Argument 0 1))]"
proof -
  let ?s = "HandleExtern (main_setup ''extern foo(a)'')"
  have 1: "resolve_Function (PrototypeAST ''foo'' [''b'']) ?s = (0, ?s)" by code_simp
  have 2: "NamedValues (enter_body 0 ?s) = [(''a'', Some (Argument 0 0))]" by code_simp
  have "(''a'', Argument 0 0) \<in> bindings (NamedValues (enter_body 0 ?s))"
    unfolding 2 by (simp add: bindings_iff)
  moreover have "(''a'', Argument 0 0) \<notin> param_bindings 0 [''b'']"
    by (simp add: param_bindings_def)
  ultimately have 3: "bindings (NamedValues (enter_body 0 ?s)) \<noteq> param_bindings 0 [''b'']"
    by blast
  have 4: "fst (FunctionAST_codegen (FunctionAST (PrototypeAST ''foo'' [''b'']) (VariableExprAST ''b'')) ?s)
      = None" by code_simp
  have 5: "map_option NamedValues (main 50 ''extern foo(a) def foo(b) b'')
      = Some [(''a'', Some (Argument 0 0)), (''b'', None)]" by code_simp
  have 6: "map_option NamedValues (main 50 ''def f(x x) x'')
      = Some [(''x'', Some (Argument 0 0)), (''x1'', Some (Argument 0 1))]" by code_simp
  from 1 2 3 4 5 6 show ?thesis by (intro conjI)
qed

text \<open>
  C8, as the code has it. \<^verbatim>\<open>FunctionAST::codegen\<close> lowers the body in the state \<open>enter_body\<close>
  makes, where the bindings of \<open>NamedValues\<close> are exactly those of the arguments of the
  function being filled, each name to its argument, whatever the table held before.
  Lowering any expression from any state leaves the bindings as they are (a failed lookup
  only adds a null entry), so they are the same at every point of the lowering of the
  body and at its end, and a variable reference succeeds exactly for a bound name. When
  the function is declared by this definition, its arguments carry the parameter names
  of the prototype cut to 1024 characters, if these differ from each other; they are
  the parameter names themselves when none is longer.
\<close>

theorem scope_holds_parameters:
  assumes "wf_Module (TheModule s)"
    and "resolve_Function (PrototypeAST Name Args) s = (TheFunction, s1)"
  shows "bindings (NamedValues (enter_body TheFunction s1))
           = param_bindings TheFunction (args_of (TheModule s1) TheFunction)
     \<and> NamedValues (enter_body TheFunction (s1\<lparr>NamedValues := nv\<rparr>))
           = NamedValues (enter_body TheFunction s1)
     \<and> bindings (NamedValues (snd (ExprAST_codegen e st))) = bindings (NamedValues st)
     \<and> bindings (NamedValues (snd (ExprAST_codegen e (enter_body TheFunction s1))))
           = param_bindings TheFunction (args_of (TheModule s1) TheFunction)
     \<and> (empty_Function (TheModule s1) TheFunction \<longrightarrow>
          bindings (NamedValues (snd (FunctionAST_codegen (FunctionAST (PrototypeAST Name Args) Body) s)))
           = param_bindings TheFunction (args_of (TheModule s1) TheFunction))
     \<and> (fst (ExprAST_codegen (VariableExprAST x) st) = Some V
          \<longleftrightarrow> (x, V) \<in> bindings (NamedValues st))
     \<and> (getFunction (TheModule s) Name = None
          \<and> distinct (map (take NonGlobalValueMaxNameSize) Args) \<longrightarrow>
          args_of (TheModule s1) TheFunction = map (take NonGlobalValueMaxNameSize) Args)
     \<and> (getFunction (TheModule s) Name = None \<and> distinct Args
          \<and> (\<forall>a \<in> set Args. length a \<le> NonGlobalValueMaxNameSize) \<longrightarrow>
          args_of (TheModule s1) TheFunction = Args)"
proof -
  let ?P = "param_bindings TheFunction (args_of (TheModule s1) TheFunction)"
  have wf1: "wf_Module (TheModule s1)"
    using wf_resolve_Function [OF assms(1), of "PrototypeAST Name Args"] assms(2) by simp
  then have d: "distinct (args_of (TheModule s1) TheFunction)" by (rule distinct_args_of)
  have a: "bindings (NamedValues (enter_body TheFunction s1)) = ?P"
    using bindings_record_args [OF d] by (simp add: enter_body_def)
  have b: "NamedValues (enter_body TheFunction (s1\<lparr>NamedValues := nv\<rparr>))
           = NamedValues (enter_body TheFunction s1)"
    by (simp add: enter_body_def)
  have c: "bindings (NamedValues (snd (ExprAST_codegen e st))) = bindings (NamedValues st)" for e st
    using ExprAST_codegen_frame(1) [of st e] by (rule bindings_cg_frame)
  have c1: "bindings (NamedValues (snd (ExprAST_codegen e (enter_body TheFunction s1)))) = ?P" for e
    using c [of e "enter_body TheFunction s1"] a by simp
  have f: "bindings (NamedValues (snd (FunctionAST_codegen (FunctionAST (PrototypeAST Name Args) Body) s))) = ?P"
    if "empty_Function (TheModule s1) TheFunction"
  proof -
    have "NamedValues (snd (FunctionAST_codegen (FunctionAST (PrototypeAST Name Args) Body) s))
        = NamedValues (snd (ExprAST_codegen Body (enter_body TheFunction s1)))"
      using assms(2) that
      by (cases "ExprAST_codegen Body (enter_body TheFunction s1)")
         (auto simp: FunctionAST_codegen_def split: option.splits)
    with c1 [of Body] show ?thesis by simp
  qed
  have v: "fst (ExprAST_codegen (VariableExprAST x) st) = Some V
          \<longleftrightarrow> (x, V) \<in> bindings (NamedValues st)"
    by (auto simp: bindings_iff split: option.splits)
  have fresh: "args_of (TheModule s1) TheFunction = setArgNames Args [] 0"
    if "getFunction (TheModule s) Name = None"
  proof -
    from that have tf: "TheFunction = next_handle (TheModule s)"
      and m: "TheModule s1 = snd (Function_Create Name Args (TheModule s))"
      using resolve_fresh [of s "PrototypeAST Name Args"] assms(2) by simp_all
    show ?thesis unfolding tf m using args_of_fresh [OF assms(1)] by simp
  qed
  have g0: "args_of (TheModule s1) TheFunction = map (take NonGlobalValueMaxNameSize) Args"
    if "getFunction (TheModule s) Name = None" "distinct (map (take NonGlobalValueMaxNameSize) Args)"
    using fresh [OF that(1)] setArgNames_cut [OF that(2), of "[]" 0] by simp
  have g: "args_of (TheModule s1) TheFunction = Args"
    if "getFunction (TheModule s) Name = None" "distinct Args"
      "\<forall>a \<in> set Args. length a \<le> NonGlobalValueMaxNameSize"
    using fresh [OF that(1)] setArgNames_id [OF that(2) _ that(3), of "[]" 0] by simp
  from a b c c1 f v g0 g show ?thesis by blast
qed

theorem scope_holds_parameters_witness:
  "wf_Module (TheModule (main_setup []))
   \<and> resolve_Function (PrototypeAST ''f'' [''x'', ''y'']) (main_setup [])
       = (0, snd (resolve_Function (PrototypeAST ''f'' [''x'', ''y'']) (main_setup [])))
   \<and> args_of (TheModule (snd (resolve_Function (PrototypeAST ''f'' [''x'', ''y'']) (main_setup [])))) 0
       = [''x'', ''y'']
   \<and> bindings (NamedValues (snd (ExprAST_codegen
         (BinaryExprAST CHR ''+'' (VariableExprAST ''x'') (VariableExprAST ''z''))
         (enter_body 0 (snd (resolve_Function (PrototypeAST ''f'' [''x'', ''y'']) (main_setup [])))))))
       = {(''x'', Argument 0 0), (''y'', Argument 0 1)}
   \<and> NamedValues (snd (ExprAST_codegen
         (BinaryExprAST CHR ''+'' (VariableExprAST ''x'') (VariableExprAST ''z''))
         (enter_body 0 (snd (resolve_Function (PrototypeAST ''f'' [''x'', ''y'']) (main_setup []))))))
       = [(''x'', Some (Argument 0 0)), (''y'', Some (Argument 0 1)), (''z'', None)]"
proof -
  let ?s = "main_setup []"
  let ?s1 = "snd (resolve_Function (PrototypeAST ''f'' [''x'', ''y'']) ?s)"
  let ?e = "BinaryExprAST CHR ''+'' (VariableExprAST ''x'') (VariableExprAST ''z'')"
  have w: "wf_Module (TheModule ?s)" by code_simp
  have r: "resolve_Function (PrototypeAST ''f'' [''x'', ''y'']) ?s = (0, ?s1)" by code_simp
  have g: "getFunction (TheModule ?s) ''f'' = None" by code_simp
  have d: "distinct [''x'', ''y'']" by simp
  have l: "\<forall>a \<in> set [''x'', ''y'']. length a \<le> NonGlobalValueMaxNameSize"
    by (simp add: NonGlobalValueMaxNameSize_def)
  have n: "NamedValues (snd (ExprAST_codegen ?e (enter_body 0 ?s1)))
       = [(''x'', Some (Argument 0 0)), (''y'', Some (Argument 0 1)), (''z'', None)]" by code_simp
  note t = scope_holds_parameters [OF w r, of _ ?e]
  from t g d l have a: "args_of (TheModule ?s1) 0 = [''x'', ''y'']" by blast
  from t have "bindings (NamedValues (snd (ExprAST_codegen ?e (enter_body 0 ?s1))))
       = param_bindings 0 (args_of (TheModule ?s1) 0)" by blast
  then have b: "bindings (NamedValues (snd (ExprAST_codegen ?e (enter_body 0 ?s1))))
       = {(''x'', Argument 0 0), (''y'', Argument 0 1)}"
    unfolding a by (simp add: param_bindings_def upt_rec)
  from w r a b n show ?thesis by (intro conjI)
qed

section \<open>Operators, declarations and values\<close>

text \<open>
  C2 as stated fails: the comparison emitted for \<^verbatim>\<open><\<close> is \<^verbatim>\<open>fcmp ult\<close>, which holds when an
  operand is a NaN. The body lowered for \<^verbatim>\<open>a<b\<close> in a function with the parameters \<^verbatim>\<open>a\<close> and
  \<^verbatim>\<open>b\<close>, run with a NaN for \<^verbatim>\<open>a\<close> and 1 for \<^verbatim>\<open>b\<close>, yields 1.0, while the ordered less-than of
  these operands is false and would yield 0.0.
\<close>

theorem less_than_is_not_ordered:
  "fst (ExprAST_codegen (BinaryExprAST CHR ''<'' (VariableExprAST ''a'') (VariableExprAST ''b''))
         (enter_body 0 (snd (resolve_Function (PrototypeAST ''lt'' [''a'', ''b'']) (main_setup [])))))
     = Some (UIToFP (FCmpULT (Argument 0 0) (Argument 0 1)))
   \<and> eval_Value 0 empty_Module [NaN, Dbl 1] (UIToFP (FCmpULT (Argument 0 0) (Argument 0 1)))
     = Some (DoubleVal (Dbl 1))
   \<and> \<not> fcmp_olt NaN (Dbl 1)
   \<and> eval_Value 0 empty_Module [NaN, Dbl 1] (UIToFP (FCmpULT (Argument 0 0) (Argument 0 1)))
     \<noteq> Some (DoubleVal (if fcmp_olt NaN (Dbl 1) then Dbl 1 else Dbl 0))"
  by code_simp

text \<open>
  C2, amended. When both operands of \<^verbatim>\<open><\<close> lower, the result is the conversion
  \<^verbatim>\<open>uitofp\<close> of the unordered-or-less-than comparison \<^verbatim>\<open>fcmp ult\<close> of the two operand values.
  Wherever the operands have the values \<open>x\<close> and \<open>y\<close>, its value is 1.0 when \<open>x\<close> is less than
  \<open>y\<close> or one of them is a NaN, and 0.0 otherwise; the wrapper of \<^verbatim>\<open>3<4\<close> computes 1.0 and
  that of \<^verbatim>\<open>4<3\<close> computes 0.0.
\<close>

theorem less_than_lowering:
  assumes "ExprAST_codegen LHS s = (Some L, s1)"
    and "ExprAST_codegen RHS s1 = (Some R, s2)"
  shows "ExprAST_codegen (BinaryExprAST CHR ''<'' LHS RHS) s = (Some (UIToFP (FCmpULT L R)), s2)
     \<and> (eval_Value n M env L = Some (DoubleVal x) \<and> eval_Value n M env R = Some (DoubleVal y) \<longrightarrow>
          eval_Value n M env (UIToFP (FCmpULT L R))
            = Some (DoubleVal (if x = NaN \<or> y = NaN \<or> fcmp_olt x y then Dbl 1 else Dbl 0)))
     \<and> evaluate 20 (main_setup ''3<4'') = Some (Dbl 1)
     \<and> evaluate 20 (main_setup ''4<3'') = Some (Dbl 0)"
proof -
  have a: "ExprAST_codegen (BinaryExprAST CHR ''<'' LHS RHS) s = (Some (UIToFP (FCmpULT L R)), s2)"
    using assms by simp
  have u: "fcmp_ult x y = (x = NaN \<or> y = NaN \<or> fcmp_olt x y)"
    by (cases x; cases y) simp_all
  have b: "eval_Value n M env (UIToFP (FCmpULT L R))
            = Some (DoubleVal (if x = NaN \<or> y = NaN \<or> fcmp_olt x y then Dbl 1 else Dbl 0))"
    if "eval_Value n M env L = Some (DoubleVal x)" "eval_Value n M env R = Some (DoubleVal y)"
    using that u by simp
  have c: "evaluate 20 (main_setup ''3<4'') = Some (Dbl 1)" by code_simp
  have d: "evaluate 20 (main_setup ''4<3'') = Some (Dbl 0)" by code_simp
  from a b c d show ?thesis by blast
qed

theorem less_than_lowering_witness:
  "ExprAST_codegen (NumberExprAST (Dbl 3)) (main_setup []) = (Some (ConstantFP (Dbl 3)), main_setup [])
   \<and> ExprAST_codegen (NumberExprAST (Dbl 4)) (main_setup []) = (Some (ConstantFP (Dbl 4)), main_setup [])
   \<and> ExprAST_codegen (BinaryExprAST CHR ''<'' (NumberExprAST (Dbl 3)) (NumberExprAST (Dbl 4))) (main_setup [])
       = (Some (UIToFP (FCmpULT (ConstantFP (Dbl 3)) (ConstantFP (Dbl 4)))), main_setup [])
   \<and> eval_Value 0 empty_Module [] (ConstantFP (Dbl 3)) = Some (DoubleVal (Dbl 3))
   \<and> eval_Value 0 empty_Module [] (ConstantFP (Dbl 4)) = Some (DoubleVal (Dbl 4))
   \<and> eval_Value 0 empty_Module [] (UIToFP (FCmpULT (ConstantFP (Dbl 3)) (ConstantFP (Dbl 4))))
       = Some (DoubleVal (Dbl 1))"
proof -
  have l: "ExprAST_codegen (NumberExprAST (Dbl 3)) (main_setup [])
      = (Some (ConstantFP (Dbl 3)), main_setup [])" by simp
  have r: "ExprAST_codegen (NumberExprAST (Dbl 4)) (main_setup [])
      = (Some (ConstantFP (Dbl 4)), main_setup [])" by simp
  have x: "eval_Value 0 empty_Module [] (ConstantFP (Dbl 3)) = Some (DoubleVal (Dbl 3))" by simp
  have y: "eval_Value 0 empty_Module [] (ConstantFP (Dbl 4)) = Some (DoubleVal (Dbl 4))" by simp
  note t = less_than_lowering [OF l r, of 0 empty_Module "[]" "Dbl 3" "Dbl 4"]
  from t have c: "ExprAST_codegen (BinaryExprAST CHR ''<'' (NumberExprAST (Dbl 3)) (NumberExprAST (Dbl 4)))
        (main_setup [])
       = (Some (UIToFP (FCmpULT (ConstantFP (Dbl 3)) (ConstantFP (Dbl 4)))), main_setup [])"
    by (elim conjE)
  from t x y have "eval_Value 0 empty_Module [] (UIToFP (FCmpULT (ConstantFP (Dbl 3)) (ConstantFP (Dbl 4))))
       = Some (DoubleVal (if Dbl 3 = NaN \<or> Dbl 4 = NaN \<or> fcmp_olt (Dbl 3) (Dbl 4) then Dbl 1 else Dbl 0))"
    by blast
  then have v: "eval_Value 0 empty_Module [] (UIToFP (FCmpULT (ConstantFP (Dbl 3)) (ConstantFP (Dbl 4))))
       = Some (DoubleVal (Dbl 1))" by simp
  from l r c x y v show ?thesis by (intro conjI)
qed

text \<open>
  C4 as stated fails for a prototype lowered on its own: \<^verbatim>\<open>PrototypeAST::codegen\<close> never looks
  the name up and always creates a function. After \<^verbatim>\<open>extern foo(a)\<close> twice the module holds
  two declarations, the second under a name made unique; an \<^verbatim>\<open>extern\<close> after a definition
  of the name adds a declaration as well.
\<close>

theorem extern_declares_again:
  "map_option (\<lambda>s. FunctionList (TheModule s)) (main 20 ''extern foo(a) extern foo(a)'')
     = Some [(0, \<lparr>fn_name = ''foo'', fn_args = [''a''], fn_blocks = NoBlocks\<rparr>),
             (1, \<lparr>fn_name = ''foo.1'', fn_args = [''a''], fn_blocks = NoBlocks\<rparr>)]
   \<and> map_option (\<lambda>s. FunctionList (TheModule s)) (main 20 ''def foo(a) a extern foo(a)'')
     = Some [(0, \<lparr>fn_name = ''foo'', fn_args = [''a''],
                   fn_blocks = EntryBlock (Some (Argument 0 0))\<rparr>),
             (1, \<lparr>fn_name = ''foo.1'', fn_args = [''a''], fn_blocks = NoBlocks\<rparr>)]"
  by code_simp

text \<open>
  C4, amended. The lowering of a function definition reuses a function of the same name
  that is in the module: the function it fills is the one found, no function is created
  (the handle counter and the set of handles do not grow), and a non-null result is the
  handle found. A prototype lowered on its own (an \<^verbatim>\<open>extern\<close>) always appends a new
  function to the module. The session \<^verbatim>\<open>extern foo(a) def foo(a) a+1 foo(2)\<close> writes no
  diagnostic and ends with the one function \<^verbatim>\<open>foo\<close>, and the wrapper of \<^verbatim>\<open>foo(2)\<close> computes 3.
\<close>

theorem definition_reuses_declaration:
  assumes "getFunction (TheModule s) (getName Proto) = Some (h, F)"
  shows "resolve_Function Proto s = (h, s)
     \<and> next_handle (TheModule (snd (FunctionAST_codegen (FunctionAST Proto Body) s)))
         = next_handle (TheModule s)
     \<and> set (map fst (FunctionList (TheModule (snd (FunctionAST_codegen (FunctionAST Proto Body) s)))))
         \<subseteq> set (map fst (FunctionList (TheModule s)))
     \<and> fst (FunctionAST_codegen (FunctionAST Proto Body) s) \<in> {None, Some h}
     \<and> fst (PrototypeAST_codegen (PrototypeAST Name Params) s1) = next_handle (TheModule s1)
     \<and> (\<exists>F1. FunctionList (TheModule (snd (PrototypeAST_codegen (PrototypeAST Name Params) s1)))
               = FunctionList (TheModule s1) @ [(next_handle (TheModule s1), F1)])
     \<and> map_option (\<lambda>s. (filter is_Error (out s), FunctionList (TheModule s)))
          (main 20 ''extern foo(a) def foo(a) a+1 foo(2)'')
         = Some ([], [(0, \<lparr>fn_name = ''foo'', fn_args = [''a''],
                 fn_blocks = EntryBlock (Some (FAdd (Argument 0 0) (ConstantFP (Dbl 1))))\<rparr>)])
     \<and> Option.bind (HandleDefinition 20 (HandleExtern
            (main_setup ''extern foo(a) def foo(a) a+1 foo(2)''))) (evaluate 20) = Some (Dbl 3)"
proof -
  let ?r = "FunctionAST_codegen (FunctionAST Proto Body) s"
  have r: "resolve_Function Proto s = (h, s)" using assms by (simp add: resolve_Function_def)
  obtain R s2 where b: "ExprAST_codegen Body (enter_body h s) = (R, s2)"
    by (cases "ExprAST_codegen Body (enter_body h s)")
  have "cg_frame (enter_body h s) s2"
    using ExprAST_codegen_frame(1) [of "enter_body h s" Body] b by simp
  then have m: "TheModule s2 = set_blocks h (EntryBlock None) (TheModule s)"
    by (simp add: TheModule_cg_frame enter_body_def)
  let ?M1 = "set_blocks h (EntryBlock None) (TheModule s)"
  have cases: "TheModule (snd ?r) = TheModule s
      \<or> (\<exists>b. TheModule (snd ?r) = set_blocks h b ?M1)
      \<or> TheModule (snd ?r) = eraseFromParent h ?M1"
    using r b m
  proof (cases "empty_Function (TheModule s) h")
    case False
    with r have "snd ?r = LogError ''Function cannot be redefined'' s"
      by (simp add: FunctionAST_codegen_def)
    then show ?thesis by (simp add: LogError_def)
  next
    case True
    show ?thesis
    proof (cases R)
      case None
      with r b True have "snd ?r = s2\<lparr>TheModule := eraseFromParent h (TheModule s2)\<rparr>"
        by (simp add: FunctionAST_codegen_def)
      with m show ?thesis by simp
    next
      case (Some v)
      with r b True
      have "snd ?r = s2\<lparr>TheModule := set_blocks h (EntryBlock (Some v)) (TheModule s2)\<rparr>"
        by (simp add: FunctionAST_codegen_def)
      with m have "TheModule (snd ?r) = set_blocks h (EntryBlock (Some v)) ?M1" by simp
      then show ?thesis by blast
    qed
  qed
  have nh1: "next_handle (set_blocks h b M) = next_handle M" for b M
    by (simp add: set_blocks_def)
  have nh2: "next_handle (eraseFromParent h M) = next_handle M" for M
    by (simp add: eraseFromParent_def)
  have hs2: "set (map fst (FunctionList (eraseFromParent h M))) \<subseteq> set (map fst (FunctionList M))" for M
    by (auto simp: eraseFromParent_def)
  have nh: "next_handle (TheModule (snd ?r)) = next_handle (TheModule s)"
    using cases by (auto simp: nh1 nh2)
  have hs: "set (map fst (FunctionList (TheModule (snd ?r)))) \<subseteq> set (map fst (FunctionList (TheModule s)))"
    using cases hs2 [of ?M1] by (auto simp only: map_fst_set_blocks)
  have res: "fst ?r \<in> {None, Some h}"
    using r b by (auto simp: FunctionAST_codegen_def split: option.splits)
  have p1: "fst (PrototypeAST_codegen (PrototypeAST Name Params) s1) = next_handle (TheModule s1)"
    by (simp add: Function_Create_def split: prod.splits)
  have p2: "\<exists>F1. FunctionList (TheModule (snd (PrototypeAST_codegen (PrototypeAST Name Params) s1)))
               = FunctionList (TheModule s1) @ [(next_handle (TheModule s1), F1)]"
    by (simp add: Function_Create_def split: prod.splits)
  have c1: "map_option (\<lambda>s. (filter is_Error (out s), FunctionList (TheModule s)))
          (main 20 ''extern foo(a) def foo(a) a+1 foo(2)'')
         = Some ([], [(0, \<lparr>fn_name = ''foo'', fn_args = [''a''],
                 fn_blocks = EntryBlock (Some (FAdd (Argument 0 0) (ConstantFP (Dbl 1))))\<rparr>)])"
    by code_simp
  have c2: "Option.bind (HandleDefinition 20 (HandleExtern
            (main_setup ''extern foo(a) def foo(a) a+1 foo(2)''))) (evaluate 20) = Some (Dbl 3)"
    by code_simp
  from r nh hs res p1 p2 c1 c2 show ?thesis by (intro conjI)
qed

theorem definition_reuses_declaration_witness:
  "getFunction (TheModule (HandleExtern (main_setup ''extern foo(a) def foo(a) a+1''))) ''foo''
     = Some (0, \<lparr>fn_name = ''foo'', fn_args = [''a''], fn_blocks = NoBlocks\<rparr>)
   \<and> resolve_Function (PrototypeAST ''foo'' [''a''])
        (HandleExtern (main_setup ''extern foo(a) def foo(a) a+1''))
     = (0, HandleExtern (main_setup ''extern foo(a) def foo(a) a+1''))
   \<and> next_handle (TheModule (snd (FunctionAST_codegen (FunctionAST (PrototypeAST ''foo'' [''a''])
          (BinaryExprAST CHR ''+'' (VariableExprAST ''a'') (NumberExprAST (Dbl 1))))
        (HandleExtern (main_setup ''extern foo(a) def foo(a) a+1''))))) = 1"
proof -
  let ?s = "HandleExtern (main_setup ''extern foo(a) def foo(a) a+1'')"
  have g: "getFunction (TheModule ?s) (getName (PrototypeAST ''foo'' [''a'']))
     = Some (0, \<lparr>fn_name = ''foo'', fn_args = [''a''], fn_blocks = NoBlocks\<rparr>)" by code_simp
  have n: "next_handle (TheModule ?s) = 1" by code_simp
  note t = definition_reuses_declaration [where Name = "''foo''" and Params = "[]"
      and ?s1.0 = "main_setup []"
      and Body = "BinaryExprAST CHR ''+'' (VariableExprAST ''a'') (NumberExprAST (Dbl 1))", OF g]
  from t have a: "resolve_Function (PrototypeAST ''foo'' [''a'']) ?s = (0, ?s)" by (elim conjE)
  from t have "next_handle (TheModule (snd (FunctionAST_codegen (FunctionAST (PrototypeAST ''foo'' [''a''])
          (BinaryExprAST CHR ''+'' (VariableExprAST ''a'') (NumberExprAST (Dbl 1)))) ?s)))
      = next_handle (TheModule ?s)"
    by (elim conjE)
  with n have b: "next_handle (TheModule (snd (FunctionAST_codegen (FunctionAST (PrototypeAST ''foo'' [''a''])
          (BinaryExprAST CHR ''+'' (VariableExprAST ''a'') (NumberExprAST (Dbl 1)))) ?s))) = 1"
    by simp
  from g a b show ?thesis by (simp only: getName.simps)
qed

text \<open>
  C9. Whatever the operands and the operators of an expression are, \<^verbatim>\<open>ParseExpression\<close>
  returns its grouping in which operators of equal precedence group to the left and an
  operator of higher precedence binds tighter, and there is no other such grouping of
  the same operands and operators: if the input reads as the operand \<open>x\<close> followed by
  the operators \<open>ops\<close>, each with its precedence in \<open>BinopPrecedence\<close> and its right
  operand, the tree returned is a grouping \<open>T\<close> of exactly this sequence that satisfies
  \<open>grouped\<close>, and the parser ends where the sequence ends. With the operators installed
  by \<^verbatim>\<open>main\<close>, \<^verbatim>\<open>1-2-3\<close> is parsed as \<^verbatim>\<open>(1-2)-3\<close> and its wrapper computes -4, \<^verbatim>\<open>1+2*3\<close> is
  parsed as \<^verbatim>\<open>1+(2*3)\<close> and computes 7, \<^verbatim>\<open>(1+2)*3\<close> computes 9; a longer chain shows all
  four operators together.
\<close>

theorem precedence_and_associativity:
  assumes "ParsePrimary n s = Some (Some x, s1)"
    and "read_operators k n s1 = Some (ops, e)"
    and "n + length ops + 1 < m"
  shows "(\<exists>T. ParseExpression m s = Some (Some (ast_of T), e)
            \<and> first_operand T = x \<and> operators T = ops \<and> grouped T
            \<and> (\<forall>T1. grouped T1 \<and> first_operand T1 = x \<and> operators T1 = ops \<longrightarrow> T1 = T))
   \<and> BinopPrecedence (main_setup [])
     = [(CHR ''<'', 10), (CHR ''+'', 20), (CHR ''-'', 20), (CHR ''*'', 40)]
   \<and> map_option fst (ParseExpression 20 (main_setup ''1-2-3''))
     = Some (Some (BinaryExprAST CHR ''-''
          (BinaryExprAST CHR ''-'' (NumberExprAST (Dbl 1)) (NumberExprAST (Dbl 2)))
          (NumberExprAST (Dbl 3))))
   \<and> evaluate 20 (main_setup ''1-2-3'') = Some (Dbl (- 4))
   \<and> map_option fst (ParseExpression 20 (main_setup ''1+2*3''))
     = Some (Some (BinaryExprAST CHR ''+'' (NumberExprAST (Dbl 1))
          (BinaryExprAST CHR ''*'' (NumberExprAST (Dbl 2)) (NumberExprAST (Dbl 3)))))
   \<and> evaluate 20 (main_setup ''1+2*3'') = Some (Dbl 7)
   \<and> map_option fst (ParseExpression 20 (main_setup ''(1+2)*3''))
     = Some (Some (BinaryExprAST CHR ''*''
          (BinaryExprAST CHR ''+'' (NumberExprAST (Dbl 1)) (NumberExprAST (Dbl 2)))
          (NumberExprAST (Dbl 3))))
   \<and> evaluate 20 (main_setup ''(1+2)*3'') = Some (Dbl 9)
   \<and> map_option fst (ParseExpression 20 (main_setup ''1-2+3<4*5*6-7''))
     = Some (Some (BinaryExprAST CHR ''<''
          (BinaryExprAST CHR ''+''
            (BinaryExprAST CHR ''-'' (NumberExprAST (Dbl 1)) (NumberExprAST (Dbl 2)))
            (NumberExprAST (Dbl 3)))
          (BinaryExprAST CHR ''-''
            (BinaryExprAST CHR ''*''
              (BinaryExprAST CHR ''*'' (NumberExprAST (Dbl 4)) (NumberExprAST (Dbl 5)))
              (NumberExprAST (Dbl 6)))
            (NumberExprAST (Dbl 7)))))"
proof -
  from ParseExpression_grouping [OF assms]
  obtain T where T: "ParseExpression m s = Some (Some (ast_of T), e)"
    "first_operand T = x" "operators T = ops" "grouped T" by blast
  have "T1 = T" if "grouped T1 \<and> first_operand T1 = x \<and> operators T1 = ops" for T1
    using that T(2,3,4) by (intro grouping_unique) simp_all
  with T have general: "\<exists>T. ParseExpression m s = Some (Some (ast_of T), e)
            \<and> first_operand T = x \<and> operators T = ops \<and> grouped T
            \<and> (\<forall>T1. grouped T1 \<and> first_operand T1 = x \<and> operators T1 = ops \<longrightarrow> T1 = T)"
    by blast
  have 0: "BinopPrecedence (main_setup [])
     = [(CHR ''<'', 10), (CHR ''+'', 20), (CHR ''-'', 20), (CHR ''*'', 40)]" by code_simp
  have 1: "map_option fst (ParseExpression 20 (main_setup ''1-2-3''))
     = Some (Some (BinaryExprAST CHR ''-''
          (BinaryExprAST CHR ''-'' (NumberExprAST (Dbl 1)) (NumberExprAST (Dbl 2)))
          (NumberExprAST (Dbl 3))))" by code_simp
  have 2: "evaluate 20 (main_setup ''1-2-3'') = Some (Dbl (- 4))" by code_simp
  have 3: "map_option fst (ParseExpression 20 (main_setup ''1+2*3''))
     = Some (Some (BinaryExprAST CHR ''+'' (NumberExprAST (Dbl 1))
          (BinaryExprAST CHR ''*'' (NumberExprAST (Dbl 2)) (NumberExprAST (Dbl 3)))))" by code_simp
  have 4: "evaluate 20 (main_setup ''1+2*3'') = Some (Dbl 7)" by code_simp
  have 5: "map_option fst (ParseExpression 20 (main_setup ''(1+2)*3''))
     = Some (Some (BinaryExprAST CHR ''*''
          (BinaryExprAST CHR ''+'' (NumberExprAST (Dbl 1)) (NumberExprAST (Dbl 2)))
          (NumberExprAST (Dbl 3))))" by code_simp
  have 6: "evaluate 20 (main_setup ''(1+2)*3'') = Some (Dbl 9)" by code_simp
  have 7: "map_option fst (ParseExpression 20 (main_setup ''1-2+3<4*5*6-7''))
     = Some (Some (BinaryExprAST CHR ''<''
          (BinaryExprAST CHR ''+''
            (BinaryExprAST CHR ''-'' (NumberExprAST (Dbl 1)) (NumberExprAST (Dbl 2)))
            (NumberExprAST (Dbl 3)))
          (BinaryExprAST CHR ''-''
            (BinaryExprAST CHR ''*''
              (BinaryExprAST CHR ''*'' (NumberExprAST (Dbl 4)) (NumberExprAST (Dbl 5)))
              (NumberExprAST (Dbl 6)))
            (NumberExprAST (Dbl 7)))))" by code_simp
  from general 0 1 2 3 4 5 6 7 show ?thesis by (intro conjI)
qed

theorem precedence_and_associativity_witness:
  "ParsePrimary 2 (main_setup ''1-2*3-4'')
     = Some (Some (NumberExprAST (Dbl 1)), snd (the (ParsePrimary 2 (main_setup ''1-2*3-4''))))
   \<and> map_option fst (read_operators 4 2 (snd (the (ParsePrimary 2 (main_setup ''1-2*3-4'')))))
     = Some [(CHR ''-'', 20, NumberExprAST (Dbl 2)), (CHR ''*'', 40, NumberExprAST (Dbl 3)),
             (CHR ''-'', 20, NumberExprAST (Dbl 4))]
   \<and> map_option fst (ParseExpression 7 (main_setup ''1-2*3-4''))
     = Some (Some (BinaryExprAST CHR ''-''
          (BinaryExprAST CHR ''-'' (NumberExprAST (Dbl 1))
            (BinaryExprAST CHR ''*'' (NumberExprAST (Dbl 2)) (NumberExprAST (Dbl 3))))
          (NumberExprAST (Dbl 4))))
   \<and> evaluate 20 (main_setup ''1-2*3-4'') = Some (Dbl (- 9))"
proof -
  let ?s = "main_setup ''1-2*3-4''"
  let ?s1 = "snd (the (ParsePrimary 2 ?s))"
  let ?e = "snd (the (read_operators 4 2 ?s1))"
  let ?ops = "[(CHR ''-'', 20, NumberExprAST (Dbl 2)), (CHR ''*'', 40, NumberExprAST (Dbl 3)),
             (CHR ''-'', 20, NumberExprAST (Dbl 4))]"
  let ?T = "Grouped CHR ''-'' 20
              (Grouped CHR ''-'' 20 (Operand (NumberExprAST (Dbl 1)))
                 (Grouped CHR ''*'' 40 (Operand (NumberExprAST (Dbl 2))) (Operand (NumberExprAST (Dbl 3)))))
              (Operand (NumberExprAST (Dbl 4)))"
  have h1: "ParsePrimary 2 ?s = Some (Some (NumberExprAST (Dbl 1)), ?s1)" by code_simp
  have h2: "read_operators 4 2 ?s1 = Some (?ops, ?e)" by code_simp
  have h3: "2 + length ?ops + 1 < 7" by simp
  have g: "grouped ?T \<and> first_operand ?T = NumberExprAST (Dbl 1) \<and> operators ?T = ?ops" by simp
  from precedence_and_associativity [OF h1 h2 h3]
  obtain T where T: "ParseExpression 7 ?s = Some (Some (ast_of T), ?e)"
    and u: "\<forall>T1. grouped T1 \<and> first_operand T1 = NumberExprAST (Dbl 1) \<and> operators T1 = ?ops
                 \<longrightarrow> T1 = T"
    by blast
  from u g have "?T = T" by blast
  with T have p: "map_option fst (ParseExpression 7 ?s)
     = Some (Some (BinaryExprAST CHR ''-''
          (BinaryExprAST CHR ''-'' (NumberExprAST (Dbl 1))
            (BinaryExprAST CHR ''*'' (NumberExprAST (Dbl 2)) (NumberExprAST (Dbl 3))))
          (NumberExprAST (Dbl 4))))" by auto
  have h2': "map_option fst (read_operators 4 2 ?s1) = Some ?ops" by code_simp
  have v: "evaluate 20 ?s = Some (Dbl (- 9))" by code_simp
  from h1 h2' p v show ?thesis by (intro conjI)
qed

end
